theory Spec2Isabelle
  imports Main "HOL-Library.Sublist"
begin

section \<open>Python values\<close>

text \<open>
  A Python \<open>str\<close> is modelled by its UTF-8 encoding: a \<open>string\<close> is the list of its
  bytes. Concatenation, splitting at a newline and stripping whole characters act on the
  encoding as they act on the text.

  The exceptions the code can meet. \<open>OtherException\<close> is any other class below
  \<open>Exception\<close> (a \<open>WebSocketDisconnect\<close>, a \<open>RuntimeError\<close>, an error of the graph),
  \<open>NonException\<close> any class below \<open>BaseException\<close> only (\<open>asyncio.CancelledError\<close>,
  \<open>KeyboardInterrupt\<close>): an \<open>except Exception\<close> clause catches the former and not the latter.
\<close>

datatype pyexc =
    IndexError
  | KeyError
  | TypeError
  | AttributeError
  | OtherException string
  | NonException string

fun is_Exception :: "pyexc \<Rightarrow> bool" where
  "is_Exception (NonException c) = False"
| "is_Exception e = True"

text \<open>
  The values that travel as JSON (\<open>receive_json\<close>, \<open>send_json\<close>, \<open>json.dumps\<close>). An
  object is a \<open>dict\<close>: its pairs in insertion order. Numbers are the integers.
\<close>

datatype json =
    JNull
  | JBool bool
  | JInt int
  | JStr string
  | JArr "json list"
  | JObj "(string \<times> json) list"

text \<open>Truth value testing, as \<open>x or y\<close> and \<open>if not x\<close> use it.\<close>

fun truthy :: "json \<Rightarrow> bool" where
  "truthy JNull = False"
| "truthy (JBool b) = b"
| "truthy (JInt n) = (n \<noteq> 0)"
| "truthy (JStr s) = (s \<noteq> [])"
| "truthy (JArr xs) = (xs \<noteq> [])"
| "truthy (JObj kvs) = (kvs \<noteq> [])"

text \<open>\<open>x or y\<close>.\<close>

definition py_or :: "json \<Rightarrow> json \<Rightarrow> json" where
  "py_or x y = (if truthy x then x else y)"

text \<open>A field of type \<open>str | None\<close>: \<open>None\<close> and the empty string are false.\<close>

fun truthy_opt :: "string option \<Rightarrow> bool" where
  "truthy_opt None = False"
| "truthy_opt (Some s) = (s \<noteq> [])"

text \<open>\<open>data[key]\<close>: a \<open>KeyError\<close> on a dict without the key, a \<open>TypeError\<close> on the other
  values (a list, a string, a number, \<open>None\<close> indexed with a string).\<close>

fun py_getitem :: "json \<Rightarrow> string \<Rightarrow> pyexc + json" where
  "py_getitem (JObj kvs) k = (case map_of kvs k of None \<Rightarrow> Inl KeyError | Some v \<Rightarrow> Inr v)"
| "py_getitem j k = Inl TypeError"

text \<open>\<open>data.get(key)\<close>: \<open>None\<close> when a dict has no such key; the other values have
  no method \<open>get\<close>.\<close>

fun py_get :: "json \<Rightarrow> string \<Rightarrow> pyexc + json" where
  "py_get (JObj kvs) k = Inr (case map_of kvs k of None \<Rightarrow> JNull | Some v \<Rightarrow> v)"
| "py_get j k = Inl AttributeError"

text \<open>\<open>str(n)\<close> for a non-negative integer: its decimal digits.\<close>

definition digit_char :: "nat \<Rightarrow> char" where
  "digit_char d = ''0123456789'' ! d"

fun str_nat :: "nat \<Rightarrow> string" where
  "str_nat n = (if n < 10 then [digit_char n] else str_nat (n div 10) @ [digit_char (n mod 10)])"

declare str_nat.simps [simp del]

text \<open>
  \<open>s.lower()\<close>: the letters \<open>A\<close> to \<open>Z\<close> go to \<open>a\<close> to \<open>z\<close>, every other byte stays.
  (\<open>str.lower\<close> also changes letters outside ASCII, into letters outside ASCII or, for
  U+0130, into \<open>i\<close> followed by U+0307: none of them can stand in an occurrence of
  \<open>retrieve\<close>, the only word the code looks for in a lowered string.)
\<close>

definition lower_char :: "char \<Rightarrow> char" where
  "lower_char c =
     (case map_of (zip ''ABCDEFGHIJKLMNOPQRSTUVWXYZ'' ''abcdefghijklmnopqrstuvwxyz'') c of
        None \<Rightarrow> c
      | Some l \<Rightarrow> l)"

definition lower :: "string \<Rightarrow> string" where
  "lower s = map lower_char s"

text \<open>\<open>sub in s\<close> on strings: \<open>sub\<close> starts at some position of \<open>s\<close>.\<close>

fun contains :: "string \<Rightarrow> string \<Rightarrow> bool" where
  "contains sub [] = (sub = [])"
| "contains sub (c # cs) = (prefix sub (c # cs) \<or> contains sub cs)"

section \<open>Messages, node updates, the graph\<close>

text \<open>
  The message objects of a conversation: \<open>HumanMessage content\<close>, \<open>AIMessage content\<close>,
  \<open>ToolMessage content name\<close> (\<open>name\<close> is the name of the tool that answered, or \<open>None\<close>,
  its default, when the message was made without one), and \<open>Other s\<close>, an object of
  another class with no \<open>content\<close> attribute (a dict, a tuple) whose \<open>str()\<close> is \<open>s\<close>.
\<close>

datatype message =
    HumanMessage string
  | AIMessage string
  | ToolMessage string "string option"
  | Other string

text \<open>\<open>isinstance(msg, AIMessage)\<close> and \<open>isinstance(msg, ToolMessage)\<close>.\<close>

fun is_AIMessage :: "message \<Rightarrow> bool" where
  "is_AIMessage (AIMessage c) = True"
| "is_AIMessage m = False"

fun is_ToolMessage :: "message \<Rightarrow> bool" where
  "is_ToolMessage (ToolMessage c n) = True"
| "is_ToolMessage m = False"

text \<open>\<open>msg.content\<close> and \<open>msg.name\<close>, read only after the \<open>isinstance\<close> test.\<close>

fun ai_content :: "message \<Rightarrow> string" where
  "ai_content (AIMessage c) = c"
| "ai_content m = []"

fun tool_name_of :: "message \<Rightarrow> string option" where
  "tool_name_of (ToolMessage c n) = n"
| "tool_name_of m = None"

text \<open>\<open>f"{name}"\<close> for a name of type \<open>str | None\<close>.\<close>

fun str_of_name :: "string option \<Rightarrow> string" where
  "str_of_name None = ''None''"
| "str_of_name (Some n) = n"

text \<open>\<open>msg.content if hasattr(msg, "content") else str(msg)\<close>.\<close>

fun msg_content :: "message \<Rightarrow> string" where
  "msg_content (HumanMessage c) = c"
| "msg_content (AIMessage c) = c"
| "msg_content (ToolMessage c n) = c"
| "msg_content (Other s) = s"

text \<open>
  A node update is the list under its \<open>"messages"\<close> key; a chunk of the stream is a dict
  from node names to updates, read by \<open>chunk.items()\<close> in insertion order.
  \<open>update["messages"][-1]\<close> raises \<open>IndexError\<close> on an empty list.
\<close>

type_synonym update = "message list"
type_synonym chunk = "(string \<times> update) list"

definition last_message :: "update \<Rightarrow> pyexc + message" where
  "last_message ms = (if ms = [] then Inl IndexError else Inr (last ms))"

text \<open>
  The collaborators the code calls and does not define, as one environment:
  \<^item> \<open>graph.invoke\<close>, \<open>graph.stream\<close> and \<open>graph.get_state\<close>, given the user's query and
    the value of \<open>config["configurable"]["thread_id"]\<close>. A call may raise. A stream
    yields its chunks and then ends (\<open>None\<close>) or raises (\<open>Some e\<close>). \<open>get_state\<close>
    returns a state;
  \<^item> \<open>response_model.invoke\<close>, from the prompt to the \<open>content\<close> of the response;
  \<^item> the string \<open>str(uuid.uuid4())\<close> gives when it is called;
  \<^item> \<open>json.dumps\<close>.
\<close>

text \<open>
  What \<open>graph.get_state\<close> returns: a \<open>StateSnapshot\<close>, the named tuple a compiled graph
  gives, with the messages among its \<open>values\<close>; or a mapping, with the list under its
  \<open>"messages"\<close> key if it has one. \<open>state["messages"]\<close> raises \<open>TypeError\<close> on the tuple, whose
  indices are integers, and \<open>KeyError\<close> on a mapping without the key.
\<close>

datatype graph_state =
    StateSnapshot "message list"
  | StateDict "message list option"

fun state_messages :: "graph_state \<Rightarrow> pyexc + message list" where
  "state_messages (StateSnapshot values) = Inl TypeError"
| "state_messages (StateDict None) = Inl KeyError"
| "state_messages (StateDict (Some messages)) = Inr messages"

record env =
  graph_invoke :: "json \<Rightarrow> json \<Rightarrow> pyexc + message list"
  graph_stream :: "json \<Rightarrow> json \<Rightarrow> chunk list \<times> pyexc option"
  graph_get_state :: "json \<Rightarrow> pyexc + graph_state"
  response_model_invoke :: "string \<Rightarrow> pyexc + string"
  uuid4 :: string
  json_dumps :: "json \<Rightarrow> string"

text \<open>\<open>request.thread_id or str(uuid.uuid4())\<close>, on a field of type \<open>str | None\<close>.\<close>

definition or_uuid4 :: "env \<Rightarrow> string option \<Rightarrow> string" where
  "or_uuid4 E t = (if truthy_opt t then the t else uuid4 E)"

text \<open>
  What a run does to the outside, in order: the calls of the graph and of the model with
  their arguments, the strings a generator yields, the calls on the websocket.
\<close>

datatype effect =
    GraphInvoke json json
  | GraphStream json json
  | GraphGetState json
  | ModelInvoke string
  | Yield string
  | WsAccept
  | WsReceiveJson
  | WsSendJson json
  | WsClose

section \<open>server.py: the helpers\<close>

text \<open>\<open>for msg in reversed(messages): if isinstance(msg, AIMessage): return msg\<close>,
  and \<open>None\<close> after the loop.\<close>

definition extract_final_answer :: "message list \<Rightarrow> message option" where
  "extract_final_answer messages = find is_AIMessage (rev messages)"

record tool_meta =
  tool_name :: "string option"
  tool_type :: string

text \<open>The same loop for a \<open>ToolMessage\<close>. \<open>msg.name.lower()\<close> raises \<open>AttributeError\<close>
  when \<open>msg.name\<close> is \<open>None\<close>.\<close>

definition extract_tool_metadata :: "message list \<Rightarrow> pyexc + tool_meta" where
  "extract_tool_metadata messages =
     (case find is_ToolMessage (rev messages) of
        Some msg \<Rightarrow>
          (case tool_name_of msg of
             None \<Rightarrow> Inl AttributeError
           | Some name \<Rightarrow>
               Inr \<lparr>tool_name = Some name,
                    tool_type = (if contains ''retrieve'' (lower name) then ''rag'' else ''custom'')\<rparr>)
      | None \<Rightarrow> Inr \<lparr>tool_name = None, tool_type = ''none''\<rparr>)"

definition get_last_ai_answer :: "message list \<Rightarrow> string option" where
  "get_last_ai_answer messages =
     (case find is_AIMessage (rev messages) of
        Some msg \<Rightarrow> Some (ai_content msg)
      | None \<Rightarrow> None)"


section \<open>Effects of a run\<close>

fun yields :: "effect list \<Rightarrow> string list" where
  "yields [] = []"
| "yields (Yield s # es) = s # yields es"
| "yields (e # es) = yields es"

fun sends :: "effect list \<Rightarrow> json list" where
  "sends [] = []"
| "sends (WsSendJson j # es) = j # sends es"
| "sends (e # es) = sends es"



text \<open>
  A generator function is modelled by what its body does when nothing interrupts it: its
  effects in order, and \<open>None\<close> when the body returns or \<open>Some e\<close> when it raises \<open>e\<close>.
  The response that iterates it either exhausts it, or takes \<open>k\<close> items and closes it
  (the client went away). Closing raises \<open>GeneratorExit\<close> at the \<open>yield\<close> where the
  generator waits; a handler \<open>except GeneratorExit: return\<close> returns there, and without
  a handler the exception ends the generator: in both cases the run stops after the
  \<open>k\<close>-th item, and what the body would have done next does not happen.
\<close>

datatype gen_end = Exhausted | Raised pyexc | Closed

datatype consumer = Exhaust | CloseAfter nat

fun upto_yield :: "nat \<Rightarrow> effect list \<Rightarrow> effect list" where
  "upto_yield 0 es = []"
| "upto_yield (Suc k) [] = []"
| "upto_yield (Suc k) (Yield s # es) = Yield s # upto_yield k es"
| "upto_yield (Suc k) (e # es) = e # upto_yield (Suc k) es"

fun natural_end :: "pyexc option \<Rightarrow> gen_end" where
  "natural_end None = Exhausted"
| "natural_end (Some e) = Raised e"

fun drive :: "consumer \<Rightarrow> effect list \<times> pyexc option \<Rightarrow> effect list \<times> gen_end" where
  "drive Exhaust (es, r) = (es, natural_end r)"
| "drive (CloseAfter k) (es, r) =
     (if k \<le> length (yields es) then (upto_yield k es, Closed) else (es, natural_end r))"

section \<open>Strings: \<open>split\<close> and \<open>strip\<close>\<close>

text \<open>\<open>s.split("\n")\<close>: the pieces between the newlines, one more than there are
  newlines.\<close>

fun split_newline :: "string \<Rightarrow> string list" where
  "split_newline [] = [[]]"
| "split_newline (c # cs) =
     (if c = CHR ''\<newline>'' then [] # split_newline cs
      else (case split_newline cs of
              [] \<Rightarrow> [[c]]
            | l # ls \<Rightarrow> (c # l) # ls))"

text \<open>
  The characters of a string, each with the bytes of its encoding: a continuation byte
  (\<open>0x80\<close> to \<open>0xBF\<close>) belongs to the character of the byte before it.
\<close>

definition is_continuation :: "char \<Rightarrow> bool" where
  "is_continuation b = (128 \<le> (of_char b :: nat) \<and> (of_char b :: nat) < 192)"

fun characters :: "string \<Rightarrow> string list" where
  "characters [] = []"
| "characters (b # bs) =
     (case characters bs of
        [] \<Rightarrow> [[b]]
      | c # cs \<Rightarrow> if is_continuation (hd c) then (b # c) # cs else [b] # c # cs)"

text \<open>\<open>s.strip(chars)\<close>: the characters of \<open>chars\<close> go from both ends.\<close>

definition strip_chars :: "string list \<Rightarrow> string \<Rightarrow> string" where
  "strip_chars chars s =
     concat (rev (dropWhile (\<lambda>c. c \<in> set chars)
       (rev (dropWhile (\<lambda>c. c \<in> set chars) (characters s)))))"

text \<open>
  The characters \<open>s.strip()\<close> removes, those \<open>str.isspace\<close> accepts: U+0009 to U+000D,
  U+001C to U+0020, U+0085, U+00A0, U+1680, U+2000 to U+200A, U+2028, U+2029, U+202F,
  U+205F and U+3000.
\<close>

definition whitespace :: "string list" where
  "whitespace =
     map (\<lambda>b. [b])
       [CHR 0x09, CHR 0x0A, CHR 0x0B, CHR 0x0C, CHR 0x0D,
        CHR 0x1C, CHR 0x1D, CHR 0x1E, CHR 0x1F, CHR 0x20]
     @ [[CHR 0xC2, CHR 0x85], [CHR 0xC2, CHR 0xA0], [CHR 0xE1, CHR 0x9A, CHR 0x80]]
     @ map (\<lambda>b. [CHR 0xE2, CHR 0x80, b])
       [CHR 0x80, CHR 0x81, CHR 0x82, CHR 0x83, CHR 0x84, CHR 0x85, CHR 0x86, CHR 0x87,
        CHR 0x88, CHR 0x89, CHR 0x8A, CHR 0xA8, CHR 0xA9, CHR 0xAF]
     @ [[CHR 0xE2, CHR 0x81, CHR 0x9F], [CHR 0xE3, CHR 0x80, CHR 0x80]]"

definition strip :: "string \<Rightarrow> string" where
  "strip s = strip_chars whitespace s"

section \<open>server.py: the endpoints\<close>

text \<open>\<open>ChatRequest\<close> (fields \<open>query\<close>, \<open>thread_id\<close>), \<open>ChatResponse\<close> (fields \<open>answer\<close>,
  \<open>thread_id\<close>, \<open>tool_type\<close>, \<open>tool_name\<close>), \<open>SuggestRequest\<close> (fields \<open>final_answer\<close>,
  \<open>thread_id\<close>) and \<open>SuggestResponse\<close> (fields \<open>suggestions\<close>, \<open>thread_id\<close>).\<close>

record chat_request =
  cq_query :: string
  cq_thread_id :: "string option"

record chat_response =
  ca_answer :: string
  ca_thread_id :: string
  ca_tool_type :: "string option"
  ca_tool_name :: "string option"

record suggest_request =
  sq_final_answer :: "string option"
  sq_thread_id :: "string option"

record suggest_response =
  sa_suggestions :: "string list"
  sa_thread_id :: "string option"

subsection \<open>\<open>/chat\<close>\<close>

definition chat :: "env \<Rightarrow> chat_request \<Rightarrow> effect list \<times> (pyexc + chat_response)" where
  "chat E request =
     (let thread_id = or_uuid4 E (cq_thread_id request) in
      case graph_invoke E (JStr (cq_query request)) (JStr thread_id) of
        Inl e \<Rightarrow> ([GraphInvoke (JStr (cq_query request)) (JStr thread_id)], Inl e)
      | Inr messages \<Rightarrow>
          (let final_msg = extract_final_answer messages in
           case extract_tool_metadata messages of
             Inl e \<Rightarrow> ([GraphInvoke (JStr (cq_query request)) (JStr thread_id)], Inl e)
           | Inr tool_meta \<Rightarrow>
               ([GraphInvoke (JStr (cq_query request)) (JStr thread_id)],
                Inr \<lparr>ca_answer =
                       (case final_msg of
                          Some m \<Rightarrow> ai_content m
                        | None \<Rightarrow> ''I don't know.''),
                     ca_thread_id = thread_id,
                     ca_tool_type = Some (tool_type tool_meta),
                     ca_tool_name = tool_name tool_meta\<rparr>)))"

subsection \<open>\<open>/chat/stream\<close>\<close>

text \<open>The sign before \<open>Node:\<close> is U+1F539, four bytes.\<close>

definition node_line :: "string \<Rightarrow> string" where
  "node_line node =
     ''data: '' @ [CHR 0xF0, CHR 0x9F, CHR 0x94, CHR 0xB9] @ '' Node: '' @ node
       @ ''\<newline>\<newline>''"

text \<open>The loop over \<open>update["messages"]\<close>.\<close>

fun event_messages :: "message list \<Rightarrow> effect list" where
  "event_messages [] = []"
| "event_messages (AIMessage c # ms) =
     Yield ''event: message\<newline>'' # Yield (''data: '' @ c @ ''\<newline>\<newline>'')
       # event_messages ms"
| "event_messages (ToolMessage c n # ms) =
     Yield ''event: tool\<newline>'' # Yield (''data: Tool='' @ str_of_name n @ ''\<newline>\<newline>'')
       # event_messages ms"
| "event_messages (m # ms) = event_messages ms"

text \<open>The loop over \<open>chunk.items()\<close>.\<close>

fun event_items :: "chunk \<Rightarrow> effect list" where
  "event_items [] = []"
| "event_items ((node, upd) # rest) =
     Yield ''event: node\<newline>'' # Yield (node_line node)
       # event_messages upd @ event_items rest"

text \<open>The loop over \<open>graph.stream(...)\<close>.\<close>

fun event_chunks :: "chunk list \<Rightarrow> effect list" where
  "event_chunks [] = []"
| "event_chunks (c # cs) = event_items c @ event_chunks cs"

definition event_stream_body :: "env \<Rightarrow> string \<Rightarrow> string \<Rightarrow> effect list \<times> pyexc option" where
  "event_stream_body E query thread_id =
     (case graph_stream E (JStr query) (JStr thread_id) of
        (chunks, fin) \<Rightarrow>
          (Yield ''event: thread\<newline>''
             # Yield (''data: '' @ thread_id @ ''\<newline>\<newline>'')
             # GraphStream (JStr query) (JStr thread_id)
             # event_chunks chunks
             @ (case fin of
                  Some e \<Rightarrow> []
                | None \<Rightarrow> [Yield ''event: done\<newline>'', Yield ''data: end\<newline>\<newline>'']),
           fin))"

definition event_stream :: "env \<Rightarrow> string \<Rightarrow> string \<Rightarrow> consumer \<Rightarrow> effect list \<times> gen_end" where
  "event_stream E query thread_id c = drive c (event_stream_body E query thread_id)"


subsection \<open>\<open>/suggest\<close>\<close>

text \<open>\<open>SUGGESTION_PROMPT.format(final_answer=final_answer)\<close>.\<close>

definition SUGGESTION_PROMPT_format :: "string \<Rightarrow> string" where
  "SUGGESTION_PROMPT_format final_answer =
     ''\<newline>You are an assistant that generates follow-up query suggestions.\<newline>''
     @ ''\<newline>Rules:\<newline>''
     @ ''- Use the provided final answer.\<newline>''
     @ ''- If the final answer contains a question, generate possible answers to that question.\<newline>''
     @ ''- If the final answer is neutral, suggest queries related to Cloud Computing Cell (CCC) and related to the neutral answer.\<newline>''
     @ ''- Generate between 2 and 3 suggestions.\<newline>''
     @ ''- Each suggestion must contain 3 to 6 words.\<newline>''
     @ ''- Do NOT number the suggestions.\<newline>''
     @ ''- Do NOT use bullets.\<newline>''
     @ ''\<newline>Final Answer:\<newline>''
     @ final_answer @ ''\<newline>''"

text \<open>\<open>[line.strip("-\<bullet> ").strip() for line in content.split("\n") if line.strip()]\<close>;
  the bullet is U+2022, three bytes.\<close>

definition parse_suggestions :: "string \<Rightarrow> string list" where
  "parse_suggestions content =
     map (\<lambda>line. strip (strip_chars [''-'', [CHR 0xE2, CHR 0x80, CHR 0xA2], '' ''] line))
       (filter (\<lambda>line. strip line \<noteq> []) (split_newline content))"

text \<open>From \<open># Generate suggestions\<close> to the end of the function, after the effects
  \<open>es\<close>.\<close>

definition suggest_generate ::
  "env \<Rightarrow> suggest_request \<Rightarrow> effect list \<Rightarrow> string
     \<Rightarrow> effect list \<times> (pyexc + suggest_response)" where
  "suggest_generate E request es final_answer =
     (let prompt = SUGGESTION_PROMPT_format final_answer in
      case response_model_invoke E prompt of
        Inl e \<Rightarrow> (es @ [ModelInvoke prompt], Inl e)
      | Inr content \<Rightarrow>
          (es @ [ModelInvoke prompt],
           Inr \<lparr>sa_suggestions = parse_suggestions content,
                sa_thread_id = sq_thread_id request\<rparr>))"

definition suggest :: "env \<Rightarrow> suggest_request \<Rightarrow> effect list \<times> (pyexc + suggest_response)" where
  "suggest E request =
     (if \<not> truthy_opt (sq_final_answer request) then
        (if \<not> truthy_opt (sq_thread_id request) then
           ([], Inr \<lparr>sa_suggestions = [], sa_thread_id = None\<rparr>)
         else
           (case graph_get_state E (JStr (the (sq_thread_id request))) of
              Inl e \<Rightarrow> ([GraphGetState (JStr (the (sq_thread_id request)))], Inl e)
            | Inr state \<Rightarrow>
                (case state_messages state of
                   Inl e \<Rightarrow> ([GraphGetState (JStr (the (sq_thread_id request)))], Inl e)
                 | Inr messages \<Rightarrow>
                     (if \<not> truthy_opt (get_last_ai_answer messages) then
                        ([GraphGetState (JStr (the (sq_thread_id request)))],
                         Inr \<lparr>sa_suggestions = [], sa_thread_id = sq_thread_id request\<rparr>)
                      else
                        suggest_generate E request
                          [GraphGetState (JStr (the (sq_thread_id request)))]
                          (the (get_last_ai_answer messages))))))
      else suggest_generate E request [] (the (sq_final_answer request)))"

section \<open>main.py\<close>

text \<open>
  The three transports of the graph's stream: \<open>run_graph\<close> behind \<open>/query\<close>,
  \<open>sse_graph_stream\<close> behind \<open>/query/stream\<close>, and the handler \<open>query_ws\<close> of \<open>/query/ws\<close>.
  (\<open>next_suggestions\<close>, at the end of the file, is called by no endpoint.)

  \<open>QueryRequest\<close> (fields \<open>query\<close>, \<open>thread_id\<close>) and \<open>QueryResponse\<close> (fields
  \<open>answer\<close>, \<open>steps\<close>, \<open>thread_id\<close>).
\<close>

record query_request =
  rq_query :: string
  rq_thread_id :: "string option"

record query_response =
  qa_answer :: string
  qa_steps :: "string list"
  qa_thread_id :: string

subsection \<open>\<open>run_graph\<close>\<close>

text \<open>\<open>f"Step {step} | Node: {node}\nResponse: {content}"\<close>.\<close>

definition step_log :: "nat \<Rightarrow> string \<Rightarrow> string \<Rightarrow> string" where
  "step_log step node content =
     ''Step '' @ str_nat step @ '' | Node: '' @ node @ ''\<newline>Response: '' @ content"

text \<open>The inner loop over \<open>chunk.items()\<close>; the state is \<open>(final_answer, steps_log)\<close>.\<close>

fun run_graph_items ::
  "nat \<Rightarrow> chunk \<Rightarrow> string \<times> string list \<Rightarrow> pyexc + string \<times> string list" where
  "run_graph_items step [] st = Inr st"
| "run_graph_items step ((node, upd) # rest) (final_answer, steps_log) =
     (case last_message upd of
        Inl e \<Rightarrow> Inl e
      | Inr msg \<Rightarrow>
          run_graph_items step rest
            (msg_content msg, steps_log @ [step_log step node (msg_content msg)]))"

text \<open>The outer loop over \<open>enumerate(graph.stream(...), start=1)\<close>.\<close>

fun run_graph_chunks ::
  "nat \<Rightarrow> chunk list \<Rightarrow> string \<times> string list \<Rightarrow> pyexc + string \<times> string list" where
  "run_graph_chunks step [] st = Inr st"
| "run_graph_chunks step (c # cs) st =
     (case run_graph_items step c st of
        Inl e \<Rightarrow> Inl e
      | Inr st' \<Rightarrow> run_graph_chunks (Suc step) cs st')"

definition run_graph :: "env \<Rightarrow> string \<Rightarrow> string \<Rightarrow> effect list \<times> (pyexc + string \<times> string list)" where
  "run_graph E query thread_id =
     (case graph_stream E (JStr query) (JStr thread_id) of
        (chunks, fin) \<Rightarrow>
          ([GraphStream (JStr query) (JStr thread_id)],
           (case run_graph_chunks 1 chunks ([], []) of
              Inl e \<Rightarrow> Inl e
            | Inr st \<Rightarrow> (case fin of Some e \<Rightarrow> Inl e | None \<Rightarrow> Inr st))))"

subsection \<open>\<open>sse_graph_stream\<close>\<close>

definition init_event :: "json \<Rightarrow> json" where
  "init_event thread_id = JObj [(''event'', JStr ''init''), (''thread_id'', thread_id)]"

definition step_event :: "nat \<Rightarrow> string \<Rightarrow> string \<Rightarrow> json" where
  "step_event step node content =
     JObj [(''event'', JStr ''step''), (''step'', JInt (int step)),
           (''node'', JStr node), (''content'', JStr content)]"

definition done_event :: json where
  "done_event = JObj [(''event'', JStr ''done'')]"

text \<open>\<open>f"data: {json.dumps(j)}\n\n"\<close>.\<close>

definition sse :: "env \<Rightarrow> json \<Rightarrow> string" where
  "sse E j = ''data: '' @ json_dumps E j @ ''\<newline>\<newline>''"

fun sse_items :: "env \<Rightarrow> nat \<Rightarrow> chunk \<Rightarrow> effect list \<times> pyexc option" where
  "sse_items E step [] = ([], None)"
| "sse_items E step ((node, upd) # rest) =
     (case last_message upd of
        Inl e \<Rightarrow> ([], Some e)
      | Inr msg \<Rightarrow>
          (case sse_items E step rest of
             (es, r) \<Rightarrow> (Yield (sse E (step_event step node (msg_content msg))) # es, r)))"

fun sse_chunks :: "env \<Rightarrow> nat \<Rightarrow> chunk list \<Rightarrow> effect list \<times> pyexc option" where
  "sse_chunks E step [] = ([], None)"
| "sse_chunks E step (c # cs) =
     (case sse_items E step c of
        (es, Some e) \<Rightarrow> (es, Some e)
      | (es, None) \<Rightarrow>
          (case sse_chunks E (Suc step) cs of (es', r) \<Rightarrow> (es @ es', r)))"

text \<open>The body of the generator: the \<open>init\<close> item, the call of \<open>graph.stream\<close>, the
  loop, the \<open>done\<close> item. An exception of the loop or of the graph's stream is not a
  \<open>GeneratorExit\<close> and leaves the body. \<open>time.sleep(0.03)\<close> changes nothing of what is
  yielded.\<close>

definition sse_graph_stream_body :: "env \<Rightarrow> string \<Rightarrow> string \<Rightarrow> effect list \<times> pyexc option" where
  "sse_graph_stream_body E query thread_id =
     (case graph_stream E (JStr query) (JStr thread_id) of
        (chunks, fin) \<Rightarrow>
          (case sse_chunks E 1 chunks of
             (es, Some e) \<Rightarrow>
               (Yield (sse E (init_event (JStr thread_id)))
                  # GraphStream (JStr query) (JStr thread_id) # es, Some e)
           | (es, None) \<Rightarrow>
               (case fin of
                  Some e \<Rightarrow>
                    (Yield (sse E (init_event (JStr thread_id)))
                       # GraphStream (JStr query) (JStr thread_id) # es, Some e)
                | None \<Rightarrow>
                    (Yield (sse E (init_event (JStr thread_id)))
                       # GraphStream (JStr query) (JStr thread_id) # es
                       @ [Yield (sse E done_event)], None))))"

definition sse_graph_stream ::
  "env \<Rightarrow> string \<Rightarrow> string \<Rightarrow> consumer \<Rightarrow> effect list \<times> gen_end" where
  "sse_graph_stream E query thread_id c = drive c (sse_graph_stream_body E query thread_id)"

subsection \<open>The endpoint \<open>/query/ws\<close>\<close>

text \<open>
  The websocket's side of a run: whether \<open>accept\<close> and \<open>close\<close> raise, what
  \<open>receive_json\<close> returns or raises, and whether the \<open>k\<close>-th call of \<open>send_json\<close>
  (counted from 0) raises.
\<close>

record websocket =
  ws_accept :: "pyexc option"
  ws_receive_json :: "pyexc + json"
  ws_send_json :: "nat \<Rightarrow> pyexc option"
  ws_close :: "pyexc option"

text \<open>The loops; \<open>k\<close> counts the calls of \<open>send_json\<close> made so far.\<close>

fun ws_items :: "websocket \<Rightarrow> nat \<Rightarrow> chunk \<Rightarrow> nat \<Rightarrow> effect list \<times> (pyexc + nat)" where
  "ws_items W step [] k = ([], Inr k)"
| "ws_items W step ((node, upd) # rest) k =
     (case last_message upd of
        Inl e \<Rightarrow> ([], Inl e)
      | Inr msg \<Rightarrow>
          (case ws_send_json W k of
             Some e \<Rightarrow> ([WsSendJson (step_event step node (msg_content msg))], Inl e)
           | None \<Rightarrow>
               (case ws_items W step rest (Suc k) of
                  (es, r) \<Rightarrow> (WsSendJson (step_event step node (msg_content msg)) # es, r))))"

fun ws_chunks :: "websocket \<Rightarrow> nat \<Rightarrow> chunk list \<Rightarrow> nat \<Rightarrow> effect list \<times> (pyexc + nat)" where
  "ws_chunks W step [] k = ([], Inr k)"
| "ws_chunks W step (c # cs) k =
     (case ws_items W step c k of
        (es, Inl e) \<Rightarrow> (es, Inl e)
      | (es, Inr k') \<Rightarrow>
          (case ws_chunks W (Suc step) cs k' of (es', r) \<Rightarrow> (es @ es', r)))"

text \<open>From the first \<open>send_json\<close> to the end of the \<open>try\<close> block.\<close>

definition query_ws_stream :: "websocket \<Rightarrow> env \<Rightarrow> json \<Rightarrow> json \<Rightarrow> effect list \<times> pyexc option" where
  "query_ws_stream W E query thread_id =
     (case ws_send_json W 0 of
        Some e \<Rightarrow> ([WsSendJson (init_event thread_id)], Some e)
      | None \<Rightarrow>
          (case graph_stream E query thread_id of
             (chunks, fin) \<Rightarrow>
               (case ws_chunks W 1 chunks 1 of
                  (es, Inl e) \<Rightarrow>
                    (WsSendJson (init_event thread_id) # GraphStream query thread_id # es, Some e)
                | (es, Inr k) \<Rightarrow>
                    (case fin of
                       Some e \<Rightarrow>
                         (WsSendJson (init_event thread_id) # GraphStream query thread_id # es,
                          Some e)
                     | None \<Rightarrow>
                         (WsSendJson (init_event thread_id) # GraphStream query thread_id # es
                            @ [WsSendJson done_event], ws_send_json W k)))))"

text \<open>The \<open>try\<close> block: \<open>None\<close> when it completes, \<open>Some e\<close> when it raises \<open>e\<close>.\<close>

definition query_ws_try :: "websocket \<Rightarrow> env \<Rightarrow> effect list \<times> pyexc option" where
  "query_ws_try W E =
     (case ws_receive_json W of
        Inl e \<Rightarrow> ([WsReceiveJson], Some e)
      | Inr data \<Rightarrow>
          (case py_getitem data ''query'' of
             Inl e \<Rightarrow> ([WsReceiveJson], Some e)
           | Inr query \<Rightarrow>
               (case py_get data ''thread_id'' of
                  Inl e \<Rightarrow> ([WsReceiveJson], Some e)
                | Inr t \<Rightarrow>
                    (let thread_id = py_or t (JStr (uuid4 E)) in
                     case query_ws_stream W E query thread_id of
                       (es, r) \<Rightarrow> (WsReceiveJson # es, r)))))"

text \<open>
  The handler: \<open>accept\<close>, then the \<open>try\<close> block; \<open>except Exception: pass\<close> drops an
  exception of a class below \<open>Exception\<close> and lets any other pass; \<open>finally\<close> calls
  \<open>close\<close>, whose own exception replaces a pending one. The result is the effects and
  the exception that reaches the caller, if any.
\<close>

definition query_ws :: "websocket \<Rightarrow> env \<Rightarrow> effect list \<times> pyexc option" where
  "query_ws W E =
     (case ws_accept W of
        Some e \<Rightarrow> ([WsAccept], Some e)
      | None \<Rightarrow>
          (case query_ws_try W E of
             (es, r) \<Rightarrow>
               (let pending =
                      (case r of
                         None \<Rightarrow> None
                       | Some e \<Rightarrow> if is_Exception e then None else Some e)
                in (WsAccept # es @ [WsClose],
                    (case ws_close W of Some e \<Rightarrow> Some e | None \<Rightarrow> pending)))))"

subsection \<open>The endpoints \<open>/query\<close> and \<open>/query/stream\<close>\<close>

definition query :: "env \<Rightarrow> query_request \<Rightarrow> effect list \<times> (pyexc + query_response)" where
  "query E req =
     (let thread_id = or_uuid4 E (rq_thread_id req) in
      case run_graph E (rq_query req) thread_id of
        (es, Inl e) \<Rightarrow> (es, Inl e)
      | (es, Inr (answer, steps)) \<Rightarrow>
          (es, Inr \<lparr>qa_answer = answer, qa_steps = steps, qa_thread_id = thread_id\<rparr>))"


section \<open>The pairs of a stream, in order\<close>

text \<open>
  What the loops of the three transports walk through: the pairs \<open>(node, update)\<close> of
  the chunks in the order of the stream, each with the number \<open>enumerate\<close> gives its
  chunk, counted from \<open>start\<close>.
\<close>

definition enumerate_items :: "nat \<Rightarrow> chunk list \<Rightarrow> (nat \<times> string \<times> update) list" where
  "enumerate_items start chunks =
     concat (map (\<lambda>(step, chunk). map (\<lambda>(node, upd). (step, node, upd)) chunk)
                 (enumerate start chunks))"

text \<open>An update with at least one message; the pairs before the first update with none.\<close>

definition has_message :: "nat \<times> string \<times> update \<Rightarrow> bool" where
  "has_message item = (case item of (step, node, upd) \<Rightarrow> upd \<noteq> [])"

definition relayed_items :: "chunk list \<Rightarrow> (nat \<times> string \<times> update) list" where
  "relayed_items chunks = takeWhile has_message (enumerate_items 1 chunks)"

text \<open>The pairs of one chunk, and a stream that ends without an exception and has a
  message in every update.\<close>

definition in_chunk :: "nat \<Rightarrow> chunk \<Rightarrow> (nat \<times> string \<times> update) list" where
  "in_chunk step c = map (\<lambda>(node, upd). (step, node, upd)) c"

definition stream_complete :: "chunk list \<times> pyexc option \<Rightarrow> bool" where
  "stream_complete stream =
     (list_all has_message (enumerate_items 1 (fst stream)) \<and> snd stream = None)"

text \<open>The content of the last message of a pair, and the entry each transport makes of
  a pair: a line of \<open>steps_log\<close>, a \<open>step\<close> event, the data of a \<open>node\<close> event.\<close>

definition item_content :: "nat \<times> string \<times> update \<Rightarrow> string" where
  "item_content item = (case item of (step, node, upd) \<Rightarrow> msg_content (last upd))"

text \<open>The final answer after a run over the pairs \<open>items\<close>, from the answer \<open>fa\<close>
  before it.\<close>

definition answer_after :: "string \<Rightarrow> (nat \<times> string \<times> update) list \<Rightarrow> string" where
  "answer_after fa items = (if items = [] then fa else item_content (last items))"

definition log_entry :: "nat \<times> string \<times> update \<Rightarrow> string" where
  "log_entry item = (case item of (step, node, upd) \<Rightarrow> step_log step node (msg_content (last upd)))"

definition step_frame :: "nat \<times> string \<times> update \<Rightarrow> json" where
  "step_frame item =
     (case item of (step, node, upd) \<Rightarrow> step_event step node (msg_content (last upd)))"

definition node_data :: "nat \<times> string \<times> update \<Rightarrow> string" where
  "node_data item = (case item of (step, node, upd) \<Rightarrow> node_line node)"

text \<open>The events of a stream of \<open>/chat/stream\<close>: each is two items, the line of the
  event's name and the line of its data. The data of the \<open>node\<close> events, in order.\<close>

fun sse_events :: "string list \<Rightarrow> (string \<times> string) list" where
  "sse_events (name # data # rest) = (name, data) # sse_events rest"
| "sse_events rest = []"

definition node_events :: "string list \<Rightarrow> string list" where
  "node_events items =
     map snd (filter (\<lambda>ev. fst ev = ''event: node\<newline>'') (sse_events items))"

text \<open>Everything \<open>/query/ws\<close> does between \<open>receive_json\<close> and \<open>close\<close> when nothing
  fails, for the query \<open>q\<close> and the thread id \<open>t\<close>.\<close>

definition ws_full :: "env \<Rightarrow> json \<Rightarrow> json \<Rightarrow> effect list" where
  "ws_full E q t =
     WsSendJson (init_event t) # GraphStream q t
       # map (\<lambda>item. WsSendJson (step_frame item)) (relayed_items (fst (graph_stream E q t)))
       @ [WsSendJson done_event]"

text \<open>The events \<open>/chat/stream\<close> makes of the messages of an update and of a pair, each
  event with its name line and its data line; the items and the effects of a list of
  events.\<close>

fun message_events :: "message list \<Rightarrow> (string \<times> string) list" where
  "message_events [] = []"
| "message_events (AIMessage c # ms) =
     (''event: message\<newline>'', ''data: '' @ c @ ''\<newline>\<newline>'') # message_events ms"
| "message_events (ToolMessage c n # ms) =
     (''event: tool\<newline>'', ''data: Tool='' @ str_of_name n @ ''\<newline>\<newline>'') # message_events ms"
| "message_events (m # ms) = message_events ms"

definition item_events :: "nat \<times> string \<times> update \<Rightarrow> (string \<times> string) list" where
  "item_events item =
     (case item of (step, node, upd) \<Rightarrow>
        (''event: node\<newline>'', node_line node) # message_events upd)"

definition two_lines :: "(string \<times> string) list \<Rightarrow> string list" where
  "two_lines evs = concat (map (\<lambda>(name, data). [name, data]) evs)"

definition two_items :: "(string \<times> string) list \<Rightarrow> effect list" where
  "two_items evs = concat (map (\<lambda>(name, data). [Yield name, Yield data]) evs)"

text \<open>The events of \<open>/chat/stream\<close> for a stream and the thread id \<open>t\<close>, when the
  response is read to its end: the \<open>thread\<close> event, the events of the pairs, and the
  \<open>done\<close> event unless the graph's stream raises.\<close>

definition chat_events :: "chunk list \<times> pyexc option \<Rightarrow> string \<Rightarrow> (string \<times> string) list" where
  "chat_events stream t =
     (''event: thread\<newline>'', ''data: '' @ t @ ''\<newline>\<newline>'')
       # concat (map item_events (enumerate_items 1 (fst stream)))
       @ (case snd stream of
            Some e \<Rightarrow> []
          | None \<Rightarrow> [(''event: done\<newline>'', ''data: end\<newline>\<newline>'')])"

section \<open>An environment for the examples\<close>

text \<open>
  The examples run the code in an environment whose graph answers every call with the
  given stream and the given messages (\<open>get_state\<close> with a \<open>StateSnapshot\<close> of them, as a
  compiled graph does), whose model answers every prompt with two lines,
  and whose \<open>json.dumps\<close> prints a value as Python does when no character of its
  strings needs an escape.
\<close>

fun join :: "string \<Rightarrow> string list \<Rightarrow> string" where
  "join sep [] = []"
| "join sep [x] = x"
| "join sep (x # y # zs) = x @ sep @ join sep (y # zs)"

fun example_dumps :: "json \<Rightarrow> string" where
  "example_dumps JNull = ''null''"
| "example_dumps (JBool b) = (if b then ''true'' else ''false'')"
| "example_dumps (JInt n) = (if n < 0 then ''-'' @ str_nat (nat (- n)) else str_nat (nat n))"
| "example_dumps (JStr s) = [CHR 0x22] @ s @ [CHR 0x22]"
| "example_dumps (JArr xs) = ''['' @ join '', '' (map example_dumps xs) @ '']''"
| "example_dumps (JObj kvs) =
     ''{''
     @ join '', '' (map (\<lambda>(k, v). [CHR 0x22] @ k @ [CHR 0x22] @ '': '' @ example_dumps v) kvs)
     @ ''}''"

definition example_env :: "chunk list \<times> pyexc option \<Rightarrow> message list \<Rightarrow> env" where
  "example_env stream messages =
     \<lparr>graph_invoke = (\<lambda>q t. Inr messages),
      graph_stream = (\<lambda>q t. stream),
      graph_get_state = (\<lambda>t. Inr (StateSnapshot messages)),
      response_model_invoke = (\<lambda>p. Inr ''- Join the CCC club\<newline>- Upcoming CCC events''),
      uuid4 = ''16fd2706-8baf-433b-82eb-8c7fada847da'',
      json_dumps = example_dumps\<rparr>"

text \<open>A stream of two chunks, and a websocket on which every call succeeds and
  \<open>receive_json\<close> returns \<open>data\<close>.\<close>

definition example_chunks :: "chunk list" where
  "example_chunks =
     [[(''agent'', [AIMessage ''a1'']), (''tools'', [ToolMessage ''r'' (Some ''web_search'')])],
      [(''final'', [HumanMessage ''h'', AIMessage ''bye''])]]"

definition example_websocket :: "json \<Rightarrow> websocket" where
  "example_websocket data =
     \<lparr>ws_accept = None, ws_receive_json = Inr data, ws_send_json = (\<lambda>k. None), ws_close = None\<rparr>"

text \<open>A websocket whose third \<open>send_json\<close> finds the client gone.\<close>

definition example_failing_websocket :: "json \<Rightarrow> websocket" where
  "example_failing_websocket data =
     \<lparr>ws_accept = None, ws_receive_json = Inr data,
      ws_send_json = (\<lambda>k. if k = 2 then Some (OtherException ''WebSocketDisconnect'') else None),
      ws_close = None\<rparr>"

section \<open>The last message of a class\<close>

lemma find_rev_None: "(find P (rev xs) = None) = (\<forall>i<length xs. \<not> P (xs ! i))"
  by (auto simp: find_None_iff in_set_conv_nth)

lemma find_rev_Some:
  "find P (rev xs) = Some m \<Longrightarrow>
     \<exists>i<length xs. xs ! i = m \<and> P m \<and> (\<forall>j<length xs. i < j \<longrightarrow> \<not> P (xs ! j))"
proof (induction xs rule: rev_induct)
  case Nil
  then show ?case by simp
next
  case (snoc x xs)
  show ?case
  proof (cases "P x")
    case True
    with snoc.prems have "m = x" by simp
    with True show ?thesis
      by (intro exI [of _ "length xs"]) (simp add: nth_append)
  next
    case False
    with snoc.prems have "find P (rev xs) = Some m" by simp
    from snoc.IH [OF this] obtain i where
      i: "i < length xs" "xs ! i = m" "P m" "\<forall>j<length xs. i < j \<longrightarrow> \<not> P (xs ! j)"
      by blast
    have "\<forall>j<length (xs @ [x]). i < j \<longrightarrow> \<not> P ((xs @ [x]) ! j)"
      using i(4) False by (auto simp: nth_append less_Suc_eq)
    with i(1-3) show ?thesis
      by (intro exI [of _ i]) (simp add: nth_append)
  qed
qed

lemma find_rev_last:
  "\<not> list_ex P after \<Longrightarrow> P x \<Longrightarrow> find P (rev (before @ x # after)) = Some x"
  by (induction after rule: rev_induct) (auto simp: list_ex_iff)

text \<open>
  Claim C3. For every list of messages, \<open>extract_final_answer\<close> returns \<open>None\<close> exactly
  when no element of the list is an \<open>AIMessage\<close>, and otherwise returns the element at
  the greatest index that holds an \<open>AIMessage\<close>: the last \<open>AIMessage\<close> of the list.
\<close>

theorem extract_final_answer_last_AIMessage:
  "((extract_final_answer messages = None) = (\<forall>i<length messages. \<not> is_AIMessage (messages ! i)))
   \<and> (\<forall>m. extract_final_answer messages = Some m \<longrightarrow>
          (\<exists>i<length messages. messages ! i = m \<and> is_AIMessage m
             \<and> (\<forall>j<length messages. i < j \<longrightarrow> \<not> is_AIMessage (messages ! j))))"
  unfolding extract_final_answer_def
  using find_rev_Some [of is_AIMessage messages] by (simp add: find_rev_None)

theorem extract_final_answer_last_AIMessage_witness:
  "extract_final_answer [HumanMessage ''q'', AIMessage ''a'', AIMessage ''b'', ToolMessage ''d'' (Some ''w'')]
     = Some (AIMessage ''b'')
   \<and> (\<exists>i<4. [HumanMessage ''q'', AIMessage ''a'', AIMessage ''b'', ToolMessage ''d'' (Some ''w'')] ! i = AIMessage ''b''
        \<and> (\<forall>j<4. i < j \<longrightarrow>
              \<not> is_AIMessage ([HumanMessage ''q'', AIMessage ''a'', AIMessage ''b'', ToolMessage ''d'' (Some ''w'')] ! j)))
   \<and> extract_final_answer [HumanMessage ''q'', ToolMessage ''d'' (Some ''w'')] = None"
  using extract_final_answer_last_AIMessage
    [of "[HumanMessage ''q'', AIMessage ''a'', AIMessage ''b'', ToolMessage ''d'' (Some ''w'')]"]
    extract_final_answer_last_AIMessage [of "[HumanMessage ''q'', ToolMessage ''d'' (Some ''w'')]"]
  by (simp add: extract_final_answer_def less_Suc_eq numeral_nat all_conj_distrib)

text \<open>
  Claim C10. For every list of messages: when the list holds an \<open>AIMessage\<close>,
  \<open>extract_final_answer\<close> returns an \<open>AIMessage\<close> and \<open>get_last_ai_answer\<close> returns the
  content of that same message; when it holds none, both return \<open>None\<close>.
\<close>

theorem get_last_ai_answer_is_content_of_extract_final_answer:
  "(list_ex is_AIMessage messages \<longrightarrow>
      (\<exists>c. extract_final_answer messages = Some (AIMessage c)
          \<and> get_last_ai_answer messages = Some c))
   \<and> (\<not> list_ex is_AIMessage messages \<longrightarrow>
        extract_final_answer messages = None \<and> get_last_ai_answer messages = None)"
proof (cases "find is_AIMessage (rev messages)")
  case None
  then have "\<not> list_ex is_AIMessage messages"
    by (simp add: find_None_iff list_ex_iff)
  with None show ?thesis
    by (simp add: extract_final_answer_def get_last_ai_answer_def)
next
  case (Some m)
  then have "is_AIMessage m" and "m \<in> set messages"
    by (metis find_Some_iff, metis find_Some_iff nth_mem set_rev)
  then have "list_ex is_AIMessage messages"
    by (auto simp: list_ex_iff)
  moreover from \<open>is_AIMessage m\<close> obtain c where "m = AIMessage c"
    by (cases m) auto
  ultimately have "m = AIMessage c" and "list_ex is_AIMessage messages"
    by simp_all
  with Some show ?thesis
    by (simp add: extract_final_answer_def get_last_ai_answer_def)
qed

theorem get_last_ai_answer_is_content_witness:
  "extract_final_answer [AIMessage ''a'', HumanMessage ''q'', AIMessage ''b'', ToolMessage ''d'' (Some ''w'')]
     = Some (AIMessage ''b'')
   \<and> get_last_ai_answer [AIMessage ''a'', HumanMessage ''q'', AIMessage ''b'', ToolMessage ''d'' (Some ''w'')]
     = Some ''b''
   \<and> extract_final_answer [HumanMessage ''q''] = None
   \<and> get_last_ai_answer [HumanMessage ''q''] = None"
  using get_last_ai_answer_is_content_of_extract_final_answer
      [of "[AIMessage ''a'', HumanMessage ''q'', AIMessage ''b'', ToolMessage ''d'' (Some ''w'')]"]
    get_last_ai_answer_is_content_of_extract_final_answer [of "[HumanMessage ''q'']"]
  by (simp add: extract_final_answer_def get_last_ai_answer_def)

lemma contains_iff: "contains sub s = (\<exists>u w. s = u @ sub @ w)"
proof (induction s)
  case Nil
  then show ?case by auto
next
  case (Cons c cs)
  have "(\<exists>u w. c # cs = u @ sub @ w) = (prefix sub (c # cs) \<or> (\<exists>u w. cs = u @ sub @ w))"
  proof
    assume "\<exists>u w. c # cs = u @ sub @ w"
    then obtain u w where uw: "c # cs = u @ sub @ w" by blast
    show "prefix sub (c # cs) \<or> (\<exists>u w. cs = u @ sub @ w)"
    proof (cases u)
      case Nil
      with uw show ?thesis by (auto simp: prefix_def)
    next
      case (Cons a u')
      with uw have "cs = u' @ sub @ w" by simp
      then show ?thesis by blast
    qed
  next
    assume "prefix sub (c # cs) \<or> (\<exists>u w. cs = u @ sub @ w)"
    then show "\<exists>u w. c # cs = u @ sub @ w"
    proof
      assume "prefix sub (c # cs)"
      then obtain w where "c # cs = sub @ w" by (auto simp: prefix_def)
      then have "c # cs = [] @ sub @ w" by simp
      then show ?thesis by blast
    next
      assume "\<exists>u w. cs = u @ sub @ w"
      then obtain u w where "cs = u @ sub @ w" by blast
      then have "c # cs = (c # u) @ sub @ w" by simp
      then show ?thesis by blast
    qed
  qed
  with Cons show ?case by simp
qed

lemma contains_lower_iff:
  "contains sub (lower n) = (\<exists>u v w. n = u @ v @ w \<and> lower v = sub)"
proof
  assume "contains sub (lower n)"
  then obtain u' w' where "map lower_char n = u' @ sub @ w'"
    by (auto simp: contains_iff lower_def)
  then obtain u vw where 1: "n = u @ vw" "map lower_char vw = sub @ w'"
    by (metis map_eq_append_conv)
  then obtain v w where "vw = v @ w" "map lower_char v = sub"
    by (metis map_eq_append_conv)
  with 1 show "\<exists>u v w. n = u @ v @ w \<and> lower v = sub"
    by (auto simp: lower_def)
next
  assume "\<exists>u v w. n = u @ v @ w \<and> lower v = sub"
  then obtain u v w where "n = u @ v @ w" "lower v = sub" by blast
  then have "lower n = lower u @ sub @ lower w" by (auto simp: lower_def)
  then show "contains sub (lower n)" unfolding contains_iff by blast
qed

lemma find_rev_none: "\<not> list_ex P xs \<Longrightarrow> find P (rev xs) = None"
  by (simp add: find_None_iff list_ex_iff)

lemma find_rev_Some_split:
  "find P (rev xs) = Some m \<Longrightarrow>
     \<exists>before after. xs = before @ m # after \<and> \<not> list_ex P after"
proof -
  assume "find P (rev xs) = Some m"
  from find_rev_Some [OF this] obtain i where
    i: "i < length xs" "xs ! i = m" "\<forall>j<length xs. i < j \<longrightarrow> \<not> P (xs ! j)"
    by blast
  have "xs = take i xs @ m # drop (Suc i) xs"
    using i(1,2) id_take_nth_drop [of i xs] by simp
  moreover have "\<not> list_ex P (drop (Suc i) xs)"
    using i(3) by (auto simp: list_ex_iff in_set_conv_nth)
  ultimately show ?thesis by blast
qed

text \<open>
  Claim C4, amended. For every list of messages whose last \<open>ToolMessage\<close>, if there is
  one, has a name: when no element is a \<open>ToolMessage\<close>, \<open>extract_tool_metadata\<close> returns
  the name \<open>None\<close> and the type \<open>none\<close>; otherwise it returns the name of the last
  \<open>ToolMessage\<close> of the list, with the type \<open>rag\<close> exactly when some part of that name
  reads \<open>retrieve\<close> once its letters are lowered, and the type \<open>custom\<close> when none does.
\<close>

theorem extract_tool_metadata_last_ToolMessage:
  "(\<not> list_ex is_ToolMessage messages \<longrightarrow>
      extract_tool_metadata messages = Inr \<lparr>tool_name = None, tool_type = ''none''\<rparr>)
   \<and> (\<forall>before c n after.
         messages = before @ ToolMessage c (Some n) # after \<and> \<not> list_ex is_ToolMessage after \<longrightarrow>
           extract_tool_metadata messages =
             Inr \<lparr>tool_name = Some n,
                  tool_type = (if \<exists>u v w. n = u @ v @ w \<and> lower v = ''retrieve''
                               then ''rag'' else ''custom'')\<rparr>)"
proof (intro conjI allI impI)
  assume "\<not> list_ex is_ToolMessage messages"
  then show "extract_tool_metadata messages = Inr \<lparr>tool_name = None, tool_type = ''none''\<rparr>"
    by (simp add: extract_tool_metadata_def find_rev_none)
next
  fix before c n after
  assume "messages = before @ ToolMessage c (Some n) # after \<and> \<not> list_ex is_ToolMessage after"
  then have "find is_ToolMessage (rev messages) = Some (ToolMessage c (Some n))"
    using find_rev_last [of is_ToolMessage after "ToolMessage c (Some n)" before] by simp
  then show "extract_tool_metadata messages =
             Inr \<lparr>tool_name = Some n,
                  tool_type = (if \<exists>u v w. n = u @ v @ w \<and> lower v = ''retrieve''
                               then ''rag'' else ''custom'')\<rparr>"
    unfolding extract_tool_metadata_def contains_lower_iff by simp
qed

theorem extract_tool_metadata_last_ToolMessage_witness:
  "extract_tool_metadata
     [ToolMessage ''sunny'' (Some ''get_weather''), AIMessage ''a'',
      ToolMessage ''doc'' (Some ''CCC_Retrieve_faqs_tool''), AIMessage ''b'']
     = Inr \<lparr>tool_name = Some ''CCC_Retrieve_faqs_tool'', tool_type = ''rag''\<rparr>
   \<and> extract_tool_metadata [HumanMessage ''q'', AIMessage ''a'']
     = Inr \<lparr>tool_name = None, tool_type = ''none''\<rparr>"
proof
  let ?ms = "[ToolMessage ''sunny'' (Some ''get_weather''), AIMessage ''a'',
              ToolMessage ''doc'' (Some ''CCC_Retrieve_faqs_tool''), AIMessage ''b'']"
  have "''CCC_Retrieve_faqs_tool'' = ''CCC_'' @ ''Retrieve'' @ ''_faqs_tool''
          \<and> lower ''Retrieve'' = ''retrieve''"
    by (simp add: lower_def lower_char_def)
  then have rag: "\<exists>u v w. ''CCC_Retrieve_faqs_tool'' = u @ v @ w \<and> lower v = ''retrieve''"
    by blast
  have "?ms = [ToolMessage ''sunny'' (Some ''get_weather''), AIMessage ''a'']
                @ ToolMessage ''doc'' (Some ''CCC_Retrieve_faqs_tool'') # [AIMessage ''b'']
          \<and> \<not> list_ex is_ToolMessage [AIMessage ''b'']"
    by simp
  with extract_tool_metadata_last_ToolMessage [of ?ms]
  have "extract_tool_metadata ?ms =
          Inr \<lparr>tool_name = Some ''CCC_Retrieve_faqs_tool'',
               tool_type = (if \<exists>u v w. ''CCC_Retrieve_faqs_tool'' = u @ v @ w \<and> lower v = ''retrieve''
                            then ''rag'' else ''custom'')\<rparr>"
    by blast
  with rag show "extract_tool_metadata ?ms =
          Inr \<lparr>tool_name = Some ''CCC_Retrieve_faqs_tool'', tool_type = ''rag''\<rparr>"
    by simp
next
  show "extract_tool_metadata [HumanMessage ''q'', AIMessage ''a'']
          = Inr \<lparr>tool_name = None, tool_type = ''none''\<rparr>"
    using extract_tool_metadata_last_ToolMessage [of "[HumanMessage ''q'', AIMessage ''a'']"]
    by simp
qed

text \<open>
  The claim as first stated asks this of every list. A \<open>ToolMessage\<close> made without a name
  has the name \<open>None\<close>; when it is the last one of the list, \<open>msg.name.lower()\<close> raises
  \<open>AttributeError\<close> and nothing is returned.
\<close>

theorem extract_tool_metadata_nameless_counterexample:
  "extract_tool_metadata
     [HumanMessage ''weather?'', ToolMessage ''sunny'' (Some ''get_weather''),
      ToolMessage ''42'' None, AIMessage ''a'']
     = Inl AttributeError"
  by (simp add: extract_tool_metadata_def)

lemma extract_tool_metadata_returns:
  assumes "\<not> (\<exists>before c after.
              messages = before @ ToolMessage c None # after \<and> \<not> list_ex is_ToolMessage after)"
  shows "\<exists>meta. extract_tool_metadata messages = Inr meta"
proof (cases "find is_ToolMessage (rev messages)")
  case None
  then show ?thesis by (simp add: extract_tool_metadata_def)
next
  case (Some m)
  from find_rev_Some_split [OF Some] obtain before after where
    split: "messages = before @ m # after" "\<not> list_ex is_ToolMessage after"
    by blast
  from Some have "is_ToolMessage m" by (metis find_Some_iff)
  then obtain c n where m: "m = ToolMessage c n" by (cases m) auto
  show ?thesis
  proof (cases n)
    case None
    with split m have "messages = before @ ToolMessage c None # after
        \<and> \<not> list_ex is_ToolMessage after"
      by simp
    then have "\<exists>before c after.
        messages = before @ ToolMessage c None # after \<and> \<not> list_ex is_ToolMessage after"
      by (intro exI)
    with assms show ?thesis by (rule notE)
  next
    case (Some name)
    with \<open>find is_ToolMessage (rev messages) = Some m\<close> m show ?thesis
      by (simp add: extract_tool_metadata_def)
  qed
qed

text \<open>
  Claim C9, amended. When \<open>graph.invoke\<close> returns a list of messages with no
  \<open>AIMessage\<close>, and the last \<open>ToolMessage\<close> of the list, if there is one, has a name,
  \<open>/chat\<close> returns a response: its answer is the fixed string \<open>I don't know.\<close>, and its
  tool name and tool type are those \<open>extract_tool_metadata\<close> returns on that same list.
\<close>

theorem chat_without_AIMessage:
  assumes "graph_invoke E (JStr (cq_query request)) (JStr (or_uuid4 E (cq_thread_id request)))
             = Inr messages"
    and "\<not> list_ex is_AIMessage messages"
    and "\<not> (\<exists>before c after.
              messages = before @ ToolMessage c None # after \<and> \<not> list_ex is_ToolMessage after)"
  shows "\<exists>meta. extract_tool_metadata messages = Inr meta
           \<and> snd (chat E request) =
               Inr \<lparr>ca_answer = ''I don't know.'',
                    ca_thread_id = or_uuid4 E (cq_thread_id request),
                    ca_tool_type = Some (tool_type meta),
                    ca_tool_name = tool_name meta\<rparr>"
proof -
  from extract_tool_metadata_returns [OF assms(3)] obtain meta where
    meta: "extract_tool_metadata messages = Inr meta"
    by blast
  with assms(1,2) have "snd (chat E request) =
               Inr \<lparr>ca_answer = ''I don't know.'',
                    ca_thread_id = or_uuid4 E (cq_thread_id request),
                    ca_tool_type = Some (tool_type meta),
                    ca_tool_name = tool_name meta\<rparr>"
    by (simp add: chat_def Let_def extract_final_answer_def find_rev_none)
  with meta show ?thesis by blast
qed

theorem chat_without_AIMessage_witness:
  "snd (chat (example_env ([], None)
               [HumanMessage ''who?'', ToolMessage ''nothing'' (Some ''web_search'')])
          \<lparr>cq_query = ''who?'', cq_thread_id = Some ''t1''\<rparr>)
     = Inr \<lparr>ca_answer = ''I don't know.'', ca_thread_id = ''t1'',
            ca_tool_type = Some ''custom'', ca_tool_name = Some ''web_search''\<rparr>"
proof -
  let ?ms = "[HumanMessage ''who?'', ToolMessage ''nothing'' (Some ''web_search'')]"
  let ?E = "example_env ([], None) ?ms"
  let ?request = "\<lparr>cq_query = ''who?'', cq_thread_id = Some ''t1''\<rparr>"
  have invoke: "graph_invoke ?E (JStr (cq_query ?request)) (JStr (or_uuid4 ?E (cq_thread_id ?request)))
      = Inr ?ms"
    by (simp add: example_env_def)
  have no_ai: "\<not> list_ex is_AIMessage ?ms"
    by simp
  have named: "\<not> (\<exists>before c after.
      ?ms = before @ ToolMessage c None # after \<and> \<not> list_ex is_ToolMessage after)"
  proof
    assume "\<exists>before c after.
      ?ms = before @ ToolMessage c None # after \<and> \<not> list_ex is_ToolMessage after"
    then obtain before c after where "?ms = before @ ToolMessage c None # after"
      by blast
    then have "ToolMessage c None \<in> set ?ms"
      by (metis in_set_conv_decomp)
    then show False
      by simp
  qed
  have meta: "extract_tool_metadata ?ms
      = Inr \<lparr>tool_name = Some ''web_search'', tool_type = ''custom''\<rparr>"
    by (simp add: extract_tool_metadata_def lower_def lower_char_def)
  from chat_without_AIMessage [OF invoke no_ai named] obtain m where
    "extract_tool_metadata ?ms = Inr m"
    and "snd (chat ?E ?request) =
           Inr \<lparr>ca_answer = ''I don't know.'', ca_thread_id = or_uuid4 ?E (cq_thread_id ?request),
                ca_tool_type = Some (tool_type m), ca_tool_name = tool_name m\<rparr>"
    by blast
  with meta show ?thesis
    by (simp add: or_uuid4_def)
qed

text \<open>
  The claim as first stated asks this of every result with no \<open>AIMessage\<close>. When the
  last \<open>ToolMessage\<close> of the result has no name, \<open>extract_tool_metadata\<close> raises
  \<open>AttributeError\<close> and \<open>/chat\<close> fails with it.
\<close>

theorem chat_nameless_tool_counterexample:
  "\<not> list_ex is_AIMessage [HumanMessage ''who?'', ToolMessage ''nothing'' None]
   \<and> chat (example_env ([], None) [HumanMessage ''who?'', ToolMessage ''nothing'' None])
       \<lparr>cq_query = ''who?'', cq_thread_id = Some ''t1''\<rparr>
     = ([GraphInvoke (JStr ''who?'') (JStr ''t1'')], Inl AttributeError)"
  by (simp add: chat_def example_env_def or_uuid4_def extract_tool_metadata_def
      extract_final_answer_def Let_def)

section \<open>The loops of the transports\<close>

lemma enumerate_items_Nil: "enumerate_items s [] = []"
  by (simp add: enumerate_items_def)

lemma enumerate_items_Cons:
  "enumerate_items s (c # cs) =
     map (\<lambda>(node, upd). (s, node, upd)) c @ enumerate_items (Suc s) cs"
  by (simp add: enumerate_items_def)

lemma in_chunk_simps:
  "in_chunk s [] = []"
  "in_chunk s ((node, upd) # rest) = (s, node, upd) # in_chunk s rest"
  by (simp_all add: in_chunk_def)

lemma answer_after_append:
  "answer_after (answer_after fa xs) ys = answer_after fa (xs @ ys)"
  by (simp add: answer_after_def)

lemma run_graph_items_eq:
  "run_graph_items step c (fa, log) =
     (if list_all has_message (in_chunk step c)
      then Inr (answer_after fa (in_chunk step c), log @ map log_entry (in_chunk step c))
      else Inl IndexError)"
proof (induction c arbitrary: fa log)
  case Nil
  then show ?case by (simp add: in_chunk_simps answer_after_def)
next
  case (Cons p rest)
  obtain node upd where p: "p = (node, upd)" by (cases p)
  show ?case
  proof (cases "upd = []")
    case True
    with p show ?thesis
      by (simp add: in_chunk_simps last_message_def has_message_def)
  next
    case False
    with p Cons.IH show ?thesis
      by (simp add: in_chunk_simps last_message_def has_message_def answer_after_def
          log_entry_def item_content_def)
  qed
qed

lemma run_graph_chunks_eq:
  "run_graph_chunks s cs (fa, log) =
     (if list_all has_message (enumerate_items s cs)
      then Inr (answer_after fa (enumerate_items s cs), log @ map log_entry (enumerate_items s cs))
      else Inl IndexError)"
proof (induction cs arbitrary: s fa log)
  case Nil
  then show ?case by (simp add: enumerate_items_Nil answer_after_def)
next
  case (Cons c cs)
  have split: "enumerate_items s (c # cs) = in_chunk s c @ enumerate_items (Suc s) cs"
    by (simp add: enumerate_items_Cons in_chunk_def)
  show ?case
    unfolding split
    by (simp add: run_graph_items_eq Cons.IH answer_after_append)
qed

lemma run_graph_eq:
  "run_graph E q thread_id =
     ([GraphStream (JStr q) (JStr thread_id)],
      (case graph_stream E (JStr q) (JStr thread_id) of
         (chunks, fin) \<Rightarrow>
           if list_all has_message (enumerate_items 1 chunks)
           then (case fin of
                   Some e \<Rightarrow> Inl e
                 | None \<Rightarrow> Inr (answer_after [] (enumerate_items 1 chunks),
                               map log_entry (enumerate_items 1 chunks)))
           else Inl IndexError))"
  by (simp add: run_graph_def run_graph_chunks_eq split: prod.splits option.splits)

lemma yields_append: "yields (xs @ ys) = yields xs @ yields ys"
  by (induction xs rule: yields.induct) simp_all

lemma yields_map_Yield: "yields (map (\<lambda>x. Yield (f x)) xs) = map f xs"
  by (induction xs) simp_all

lemma yields_upto_yield: "yields (upto_yield k es) = take k (yields es)"
  by (induction k es rule: upto_yield.induct) simp_all


lemma yields_drive:
  "yields (fst (drive c g)) =
     (case c of Exhaust \<Rightarrow> yields (fst g) | CloseAfter k \<Rightarrow> take k (yields (fst g)))"
  by (cases g; cases c) (simp_all add: yields_upto_yield)


lemma takeWhile_append_if:
  "takeWhile P (xs @ ys) = (if list_all P xs then xs @ takeWhile P ys else takeWhile P xs)"
  by (induction xs) simp_all

lemma takeWhile_list_all: "list_all P xs \<Longrightarrow> takeWhile P xs = xs"
  by (induction xs) simp_all

lemma sse_items_eq:
  "sse_items E step c =
     (map (\<lambda>item. Yield (sse E (step_frame item))) (takeWhile has_message (in_chunk step c)),
      if list_all has_message (in_chunk step c) then None else Some IndexError)"
proof (induction c)
  case Nil
  then show ?case by (simp add: in_chunk_simps)
next
  case (Cons p rest)
  obtain node upd where p: "p = (node, upd)" by (cases p)
  show ?case
  proof (cases "upd = []")
    case True
    with p show ?thesis
      by (simp add: in_chunk_simps last_message_def has_message_def)
  next
    case False
    with p Cons.IH show ?thesis
      by (simp add: in_chunk_simps last_message_def has_message_def step_frame_def)
  qed
qed

lemma sse_chunks_eq:
  "sse_chunks E s cs =
     (map (\<lambda>item. Yield (sse E (step_frame item))) (takeWhile has_message (enumerate_items s cs)),
      if list_all has_message (enumerate_items s cs) then None else Some IndexError)"
proof (induction cs arbitrary: s)
  case Nil
  then show ?case by (simp add: enumerate_items_Nil)
next
  case (Cons c cs)
  have split: "enumerate_items s (c # cs) = in_chunk s c @ enumerate_items (Suc s) cs"
    by (simp add: enumerate_items_Cons in_chunk_def)
  show ?case
    unfolding split
    by (simp add: sse_items_eq Cons.IH takeWhile_append_if takeWhile_list_all)
qed

lemma sse_graph_stream_body_eq:
  "sse_graph_stream_body E q t =
     (Yield (sse E (init_event (JStr t))) # GraphStream (JStr q) (JStr t)
        # map (\<lambda>item. Yield (sse E (step_frame item)))
            (relayed_items (fst (graph_stream E (JStr q) (JStr t))))
        @ (if stream_complete (graph_stream E (JStr q) (JStr t))
           then [Yield (sse E done_event)] else []),
      if list_all has_message (enumerate_items 1 (fst (graph_stream E (JStr q) (JStr t))))
      then snd (graph_stream E (JStr q) (JStr t)) else Some IndexError)"
  by (cases "graph_stream E (JStr q) (JStr t)")
    (simp add: sse_graph_stream_body_def sse_chunks_eq relayed_items_def stream_complete_def
      split: option.splits)

lemma yields_sse_graph_stream_body:
  "yields (fst (sse_graph_stream_body E q t)) =
     map (sse E)
       (init_event (JStr t)
          # map step_frame (relayed_items (fst (graph_stream E (JStr q) (JStr t))))
          @ (if stream_complete (graph_stream E (JStr q) (JStr t)) then [done_event] else []))"
  by (simp add: sse_graph_stream_body_eq yields_append yields_map_Yield o_def)

lemma sends_append: "sends (xs @ ys) = sends xs @ sends ys"
  by (induction xs rule: sends.induct) simp_all

lemma sends_map_WsSendJson: "sends (map (\<lambda>x. WsSendJson (f x)) xs) = map f xs"
  by (induction xs) simp_all

lemma prefix_sends: "prefix xs ys \<Longrightarrow> prefix (sends xs) (sends ys)"
  by (auto simp: prefix_def sends_append)

lemma ws_items_facts:
  "prefix (fst (ws_items W step c k))
     (map (\<lambda>item. WsSendJson (step_frame item)) (takeWhile has_message (in_chunk step c)))
   \<and> (\<forall>k'. snd (ws_items W step c k) = Inr k' \<longrightarrow>
          list_all has_message (in_chunk step c)
        \<and> fst (ws_items W step c k) = map (\<lambda>item. WsSendJson (step_frame item)) (in_chunk step c)
        \<and> k' = k + length c)
   \<and> (\<forall>e. snd (ws_items W step c k) = Inl e \<longrightarrow>
          e = IndexError \<or> (\<exists>j. ws_send_json W j = Some e))"
proof (induction c arbitrary: k)
  case Nil
  then show ?case by (simp add: in_chunk_simps)
next
  case (Cons p rest)
  obtain node upd where p: "p = (node, upd)" by (cases p)
  show ?case
  proof (cases "upd = []")
    case True
    with p show ?thesis
      by (simp add: in_chunk_simps last_message_def has_message_def)
  next
    case False
    show ?thesis
    proof (cases "ws_send_json W k")
      case (Some e)
      with p False show ?thesis
        by (auto simp: in_chunk_simps last_message_def has_message_def step_frame_def)
    next
      case None
      obtain es r where rest: "ws_items W step rest (Suc k) = (es, r)"
        by (cases "ws_items W step rest (Suc k)")
      with Cons.IH [of "Suc k"] p False None show ?thesis
        by (simp add: in_chunk_simps last_message_def has_message_def step_frame_def)
    qed
  qed
qed

lemma ws_items_all_sent:
  "\<forall>j. ws_send_json W j = None \<Longrightarrow>
   ws_items W step c k =
     (map (\<lambda>item. WsSendJson (step_frame item)) (takeWhile has_message (in_chunk step c)),
      if list_all has_message (in_chunk step c) then Inr (k + length c) else Inl IndexError)"
proof (induction c arbitrary: k)
  case Nil
  then show ?case by (simp add: in_chunk_simps)
next
  case (Cons p rest)
  obtain node upd where p: "p = (node, upd)" by (cases p)
  show ?case
  proof (cases "upd = []")
    case True
    with p show ?thesis
      by (simp add: in_chunk_simps last_message_def has_message_def)
  next
    case False
    with p Cons.IH [OF Cons.prems, of "Suc k"] Cons.prems show ?thesis
      by (simp add: in_chunk_simps last_message_def has_message_def step_frame_def)
  qed
qed

lemma ws_chunks_facts:
  "prefix (fst (ws_chunks W s cs k))
     (map (\<lambda>item. WsSendJson (step_frame item)) (takeWhile has_message (enumerate_items s cs)))
   \<and> (\<forall>k'. snd (ws_chunks W s cs k) = Inr k' \<longrightarrow>
          list_all has_message (enumerate_items s cs)
        \<and> fst (ws_chunks W s cs k)
            = map (\<lambda>item. WsSendJson (step_frame item)) (enumerate_items s cs)
        \<and> k' = k + length (enumerate_items s cs))
   \<and> (\<forall>e. snd (ws_chunks W s cs k) = Inl e \<longrightarrow>
          e = IndexError \<or> (\<exists>j. ws_send_json W j = Some e))"
proof (induction cs arbitrary: s k)
  case Nil
  then show ?case by (simp add: enumerate_items_Nil)
next
  case (Cons c cs)
  have split: "enumerate_items s (c # cs) = in_chunk s c @ enumerate_items (Suc s) cs"
    by (simp add: enumerate_items_Cons in_chunk_def)
  obtain es r where items: "ws_items W s c k = (es, r)"
    by (cases "ws_items W s c k")
  note F = ws_items_facts [of W s c k, unfolded items, simplified]
  show ?case
  proof (cases r)
    case (Inl e)
    with items F show ?thesis
      unfolding split
      by (auto simp: takeWhile_append_if takeWhile_list_all)
  next
    case (Inr k1)
    obtain es' r' where chunks: "ws_chunks W (Suc s) cs k1 = (es', r')"
      by (cases "ws_chunks W (Suc s) cs k1")
    note G = Cons.IH [of "Suc s" k1, unfolded chunks, simplified]
    from Inr items F chunks G show ?thesis
      unfolding split
      by (auto simp: takeWhile_append_if takeWhile_list_all in_chunk_def)
  qed
qed

lemma ws_chunks_all_sent:
  "\<forall>j. ws_send_json W j = None \<Longrightarrow>
   ws_chunks W s cs k =
     (map (\<lambda>item. WsSendJson (step_frame item)) (takeWhile has_message (enumerate_items s cs)),
      if list_all has_message (enumerate_items s cs)
      then Inr (k + length (enumerate_items s cs)) else Inl IndexError)"
proof (induction cs arbitrary: s k)
  case Nil
  then show ?case by (simp add: enumerate_items_Nil)
next
  case (Cons c cs)
  have split: "enumerate_items s (c # cs) = in_chunk s c @ enumerate_items (Suc s) cs"
    by (simp add: enumerate_items_Cons in_chunk_def)
  show ?case
    unfolding split
    by (simp add: ws_items_all_sent [OF Cons.prems] Cons.IH [OF Cons.prems]
        takeWhile_append_if takeWhile_list_all in_chunk_def)
qed

lemma prefix_append_right: "prefix xs ys \<Longrightarrow> prefix xs (ys @ zs)"
  by (auto simp: prefix_def)

lemma query_ws_stream_facts:
  "prefix (fst (query_ws_stream W E q t)) (ws_full E q t)
   \<and> (\<forall>e. snd (query_ws_stream W E q t) = Some e \<longrightarrow>
          e = IndexError \<or> (\<exists>j. ws_send_json W j = Some e) \<or> snd (graph_stream E q t) = Some e)"
proof (cases "ws_send_json W 0")
  case (Some e)
  then show ?thesis
    by (auto simp: query_ws_stream_def ws_full_def)
next
  case None
  obtain chunks fin where gs: "graph_stream E q t = (chunks, fin)"
    by (cases "graph_stream E q t")
  obtain es r where wc: "ws_chunks W 1 chunks 1 = (es, r)"
    by (cases "ws_chunks W 1 chunks 1")
  note F = ws_chunks_facts [of W 1 chunks 1, unfolded wc, simplified]
  show ?thesis
  proof (cases r)
    case (Inl e)
    with None gs wc F show ?thesis
      by (auto simp: query_ws_stream_def ws_full_def relayed_items_def
          intro: prefix_append_right)
  next
    case (Inr k)
    with None gs wc F show ?thesis
      by (cases fin)
        (auto simp: query_ws_stream_def ws_full_def relayed_items_def takeWhile_list_all)
  qed
qed

lemma query_ws_stream_complete:
  assumes "\<forall>j. ws_send_json W j = None" and "stream_complete (graph_stream E q t)"
  shows "query_ws_stream W E q t = (ws_full E q t, None)"
proof -
  obtain chunks fin where gs: "graph_stream E q t = (chunks, fin)"
    by (cases "graph_stream E q t")
  with assms show ?thesis
    by (simp add: query_ws_stream_def ws_full_def relayed_items_def stream_complete_def
        ws_chunks_all_sent [OF assms(1)] takeWhile_list_all)
qed

lemma query_ws_try_received:
  assumes "ws_receive_json W = Inr data" and "py_getitem data ''query'' = Inr q"
    and "py_get data ''thread_id'' = Inr v"
  shows "query_ws_try W E =
           (WsReceiveJson # fst (query_ws_stream W E q (py_or v (JStr (uuid4 E)))),
            snd (query_ws_stream W E q (py_or v (JStr (uuid4 E)))))"
  using assms by (simp add: query_ws_try_def Let_def split: prod.splits)

lemma py_getitem_exc: "py_getitem data k = Inl e \<Longrightarrow> is_Exception e"
  by (cases data) (auto split: option.splits)

lemma py_get_exc: "py_get data k = Inl e \<Longrightarrow> is_Exception e"
  by (cases data) auto

lemma query_ws_try_raised:
  assumes "snd (query_ws_try W E) = Some e"
  shows "is_Exception e \<or> ws_receive_json W = Inl e \<or> (\<exists>j. ws_send_json W j = Some e)
         \<or> (\<exists>q t. snd (graph_stream E q t) = Some e)"
proof (cases "ws_receive_json W")
  case (Inl e')
  with assms show ?thesis by (simp add: query_ws_try_def)
next
  case (Inr data)
  show ?thesis
  proof (cases "py_getitem data ''query''")
    case (Inl e')
    with Inr assms py_getitem_exc [of data "''query''" e'] show ?thesis
      by (simp add: query_ws_try_def)
  next
    case q: (Inr q)
    show ?thesis
    proof (cases "py_get data ''thread_id''")
      case (Inl e')
      with Inr q assms py_get_exc [of data "''thread_id''" e'] show ?thesis
        by (simp add: query_ws_try_def)
    next
      case v: (Inr v)
      from assms have "snd (query_ws_stream W E q (py_or v (JStr (uuid4 E)))) = Some e"
        by (simp add: query_ws_try_received [OF Inr q v])
      with query_ws_stream_facts [of W E q "py_or v (JStr (uuid4 E))"] show ?thesis
        by auto
    qed
  qed
qed

lemma set_prefix_subset: "prefix xs ys \<Longrightarrow> set xs \<subseteq> set ys"
  by (auto simp: prefix_def)

lemma WsClose_notin_ws_full: "WsClose \<notin> set (ws_full E q t)"
  by (auto simp: ws_full_def)

lemma WsClose_notin_stream: "WsClose \<notin> set (fst (query_ws_stream W E q t))"
  using query_ws_stream_facts [of W E q t] WsClose_notin_ws_full [of E q t]
  by (auto dest: set_prefix_subset)

lemma WsClose_notin_try: "WsClose \<notin> set (fst (query_ws_try W E))"
proof (cases "ws_receive_json W")
  case (Inl e')
  then show ?thesis by (simp add: query_ws_try_def)
next
  case (Inr data)
  show ?thesis
  proof (cases "py_getitem data ''query''")
    case (Inl e')
    with Inr show ?thesis by (simp add: query_ws_try_def)
  next
    case q: (Inr q)
    show ?thesis
    proof (cases "py_get data ''thread_id''")
      case (Inl e')
      with Inr q show ?thesis by (simp add: query_ws_try_def)
    next
      case v: (Inr v)
      show ?thesis
        using WsClose_notin_stream by (simp add: query_ws_try_received [OF Inr q v])
    qed
  qed
qed

lemma two_items_simps:
  "two_items [] = []"
  "two_items ((name, data) # evs) = Yield name # Yield data # two_items evs"
  "two_items (xs @ ys) = two_items xs @ two_items ys"
  by (simp_all add: two_items_def)

lemma two_lines_simps:
  "two_lines [] = []"
  "two_lines ((name, data) # evs) = name # data # two_lines evs"
  "two_lines (xs @ ys) = two_lines xs @ two_lines ys"
  by (simp_all add: two_lines_def)

lemma yields_two_items: "yields (two_items evs) = two_lines evs"
  by (induction evs) (auto simp: two_items_simps two_lines_simps)

lemma event_messages_eq: "event_messages ms = two_items (message_events ms)"
  by (induction ms rule: message_events.induct) (simp_all add: two_items_simps)

lemma event_items_eq:
  "event_items c = two_items (concat (map item_events (in_chunk step c)))"
proof (induction c)
  case Nil
  then show ?case by (simp add: in_chunk_simps two_items_simps)
next
  case (Cons p rest)
  obtain node upd where p: "p = (node, upd)" by (cases p)
  with Cons show ?case
    by (simp add: in_chunk_simps two_items_simps item_events_def event_messages_eq)
qed

lemma event_chunks_eq:
  "event_chunks cs = two_items (concat (map item_events (enumerate_items s cs)))"
proof (induction cs arbitrary: s)
  case Nil
  then show ?case by (simp add: enumerate_items_Nil two_items_simps)
next
  case (Cons c cs)
  have split: "enumerate_items s (c # cs) = in_chunk s c @ enumerate_items (Suc s) cs"
    by (simp add: enumerate_items_Cons in_chunk_def)
  show ?case
    unfolding split
    by (simp add: two_items_simps event_items_eq [of c s] Cons.IH [of "Suc s"])
qed

lemma sse_events_two_lines_take:
  "sse_events (take k (two_lines evs)) = take (k div 2) evs"
proof (induction evs arbitrary: k)
  case Nil
  then show ?case by (simp add: two_lines_simps)
next
  case (Cons ev evs)
  obtain name data where ev: "ev = (name, data)" by (cases ev)
  show ?case
  proof (cases k)
    case 0
    then show ?thesis by simp
  next
    case (Suc k1)
    show ?thesis
    proof (cases k1)
      case 0
      with Suc ev show ?thesis by (simp add: two_lines_simps)
    next
      case (Suc k2)
      with \<open>k = Suc k1\<close> ev Cons.IH [of k2] show ?thesis
        by (simp add: two_lines_simps)
    qed
  qed
qed

lemma sse_events_two_lines: "sse_events (two_lines evs) = evs"
  using sse_events_two_lines_take [of "length (two_lines evs)" evs]
  by (simp add: two_lines_def length_concat o_def split_def sum_list_triv)

section \<open>Claim C1: the order of the stream\<close>

lemma yields_event_stream_body:
  "yields (fst (event_stream_body E q t)) = two_lines (chat_events (graph_stream E (JStr q) (JStr t)) t)"
  by (cases "graph_stream E (JStr q) (JStr t)")
    (simp add: event_stream_body_def chat_events_def yields_append yields_two_items
      event_chunks_eq [of _ 1] two_lines_simps split: option.splits)

lemma node_filter_message_events:
  "filter (\<lambda>ev. fst ev = ''event: node\<newline>'') (message_events ms) = []"
  by (induction ms rule: message_events.induct) simp_all

lemma node_filter_item_events:
  "filter (\<lambda>ev. fst ev = ''event: node\<newline>'') (concat (map item_events items))
     = map (\<lambda>item. (''event: node\<newline>'', node_data item)) items"
  by (induction items)
    (auto simp: item_events_def node_data_def node_filter_message_events)

lemma node_filter_chat_events:
  "map snd (filter (\<lambda>ev. fst ev = ''event: node\<newline>'') (chat_events stream t))
     = map node_data (enumerate_items 1 (fst stream))"
  by (simp add: chat_events_def node_filter_item_events o_def split: option.splits)

lemma prefix_filter_take: "prefix (filter P (take m xs)) (filter P xs)"
proof -
  have "filter P xs = filter P (take m xs) @ filter P (drop m xs)"
    by (metis append_take_drop_id filter_append)
  then show ?thesis by (simp add: prefix_def)
qed

lemma node_events_two_lines: "node_events (two_lines (chat_events stream t))
  = map node_data (enumerate_items 1 (fst stream))"
  by (simp add: node_events_def sse_events_two_lines node_filter_chat_events)

lemma node_events_take_two_lines:
  "prefix (node_events (take k (two_lines (chat_events stream t))))
     (map node_data (enumerate_items 1 (fst stream)))"
proof -
  have "prefix (map snd (filter (\<lambda>ev. fst ev = ''event: node\<newline>'') (take (k div 2) (chat_events stream t))))
     (map snd (filter (\<lambda>ev. fst ev = ''event: node\<newline>'') (chat_events stream t)))"
    by (intro map_mono_prefix prefix_filter_take)
  then show ?thesis
    by (simp add: node_events_def sse_events_two_lines_take node_filter_chat_events)
qed

lemma yields_event_stream:
  "yields (fst (event_stream E q t c)) =
     (case c of
        Exhaust \<Rightarrow> two_lines (chat_events (graph_stream E (JStr q) (JStr t)) t)
      | CloseAfter k \<Rightarrow> take k (two_lines (chat_events (graph_stream E (JStr q) (JStr t)) t)))"
  by (cases c) (simp_all add: event_stream_def yields_drive yields_event_stream_body)

lemma yields_sse_graph_stream:
  "yields (fst (sse_graph_stream E q t c)) =
     (case c of
        Exhaust \<Rightarrow> yields (fst (sse_graph_stream_body E q t))
      | CloseAfter k \<Rightarrow> take k (yields (fst (sse_graph_stream_body E q t))))"
  by (simp add: sse_graph_stream_def yields_drive)

lemma relayed_items_complete:
  "stream_complete stream \<Longrightarrow> relayed_items (fst stream) = enumerate_items 1 (fst stream)"
  by (simp add: stream_complete_def relayed_items_def takeWhile_list_all)

lemma prefix_take: "prefix (take k xs) xs"
  by (metis append_take_drop_id prefixI)

lemma sse_relays_in_order:
  "prefix (yields (fst (sse_graph_stream E q t c)))
     (map (sse E)
        (init_event (JStr t)
           # map step_frame (relayed_items (fst (graph_stream E (JStr q) (JStr t))))
           @ [done_event]))"
proof -
  have "prefix (yields (fst (sse_graph_stream_body E q t)))
     (map (sse E)
        (init_event (JStr t)
           # map step_frame (relayed_items (fst (graph_stream E (JStr q) (JStr t))))
           @ [done_event]))"
    by (simp add: yields_sse_graph_stream_body)
  moreover have "prefix (yields (fst (sse_graph_stream E q t c))) (yields (fst (sse_graph_stream_body E q t)))"
    by (cases c) (simp_all add: yields_sse_graph_stream prefix_take)
  ultimately show ?thesis
    by (rule prefix_order.trans [rotated])
qed

lemma sse_relays_all:
  "stream_complete (graph_stream E (JStr q) (JStr t)) \<Longrightarrow>
   yields (fst (sse_graph_stream E q t Exhaust)) =
     map (sse E)
        (init_event (JStr t)
           # map step_frame (enumerate_items 1 (fst (graph_stream E (JStr q) (JStr t))))
           @ [done_event])"
  by (simp add: yields_sse_graph_stream yields_sse_graph_stream_body relayed_items_complete)

lemma event_stream_relays_in_order:
  "prefix (node_events (yields (fst (event_stream E q t c))))
     (map node_data (enumerate_items 1 (fst (graph_stream E (JStr q) (JStr t)))))"
proof (cases c)
  case Exhaust
  then show ?thesis by (simp add: yields_event_stream node_events_two_lines)
next
  case (CloseAfter k)
  with node_events_take_two_lines [of k "graph_stream E (JStr q) (JStr t)" t] show ?thesis
    by (simp add: yields_event_stream)
qed

lemma event_stream_relays_all:
  "node_events (yields (fst (event_stream E q t Exhaust)))
     = map node_data (enumerate_items 1 (fst (graph_stream E (JStr q) (JStr t))))"
  by (simp add: yields_event_stream node_events_two_lines)

lemma sends_query_ws:
  "sends (fst (query_ws W E)) =
     (case ws_accept W of Some e \<Rightarrow> [] | None \<Rightarrow> sends (fst (query_ws_try W E)))"
  by (simp add: query_ws_def sends_append split: option.splits prod.splits)

lemma sends_ws_full:
  "sends (ws_full E q t) =
     init_event t # map step_frame (relayed_items (fst (graph_stream E q t))) @ [done_event]"
  by (simp add: ws_full_def sends_append sends_map_WsSendJson)

lemma query_ws_relays_in_order:
  assumes "ws_receive_json W = Inr data" and "py_getitem data ''query'' = Inr q"
    and "py_get data ''thread_id'' = Inr v"
  shows "prefix (sends (fst (query_ws W E)))
     (init_event (py_or v (JStr (uuid4 E)))
        # map step_frame (relayed_items (fst (graph_stream E q (py_or v (JStr (uuid4 E))))))
        @ [done_event])"
proof (cases "ws_accept W")
  case (Some e)
  then show ?thesis by (simp add: sends_query_ws)
next
  case None
  have "prefix (sends (fst (query_ws_stream W E q (py_or v (JStr (uuid4 E))))))
          (sends (ws_full E q (py_or v (JStr (uuid4 E)))))"
    using query_ws_stream_facts [of W E q "py_or v (JStr (uuid4 E))"]
    by (simp add: prefix_sends)
  with None show ?thesis
    by (simp add: sends_query_ws query_ws_try_received [OF assms] sends_ws_full)
qed

lemma query_ws_relays_all:
  assumes "ws_receive_json W = Inr data" and "py_getitem data ''query'' = Inr q"
    and "py_get data ''thread_id'' = Inr v"
    and "ws_accept W = None" and "\<forall>j. ws_send_json W j = None"
    and "stream_complete (graph_stream E q (py_or v (JStr (uuid4 E))))"
  shows "sends (fst (query_ws W E)) =
     init_event (py_or v (JStr (uuid4 E)))
        # map step_frame (enumerate_items 1 (fst (graph_stream E q (py_or v (JStr (uuid4 E))))))
        @ [done_event]"
  using assms(4)
  by (simp add: sends_query_ws query_ws_try_received [OF assms(1-3)]
      query_ws_stream_complete [OF assms(5,6)] sends_ws_full relayed_items_complete [OF assms(6)])

lemma step_numbers_from:
  "map fst (enumerate_items s chunks)
     = concat (map (\<lambda>(i, c). replicate (length c) i) (enumerate s chunks))"
proof (induction chunks arbitrary: s)
  case Nil
  then show ?case by (simp add: enumerate_items_Nil)
next
  case (Cons c cs)
  have "map fst (map (\<lambda>(node, upd). (s, node, upd)) c) = replicate (length c) s"
    by (induction c) auto
  with Cons.IH [of "Suc s"] show ?case
    by (simp add: enumerate_items_Cons)
qed

lemma pairs_in_order: "map snd (enumerate_items s chunks) = concat chunks"
proof (induction chunks arbitrary: s)
  case Nil
  then show ?case by (simp add: enumerate_items_Nil)
next
  case (Cons c cs)
  have "map snd (map (\<lambda>(node, upd). (s, node, upd)) c) = c"
    by (induction c) auto
  with Cons.IH [of "Suc s"] show ?case
    by (simp add: enumerate_items_Cons)
qed

lemma run_graph_returns:
  "snd (run_graph E q t) = Inr (answer, steps) \<Longrightarrow>
     steps = map log_entry (enumerate_items 1 (fst (graph_stream E (JStr q) (JStr t))))"
  by (cases "graph_stream E (JStr q) (JStr t)")
    (auto simp: run_graph_eq split: if_splits option.splits)

lemma run_graph_complete:
  "stream_complete (graph_stream E (JStr q) (JStr t)) \<Longrightarrow>
     run_graph E q t =
       ([GraphStream (JStr q) (JStr t)],
        Inr (answer_after [] (enumerate_items 1 (fst (graph_stream E (JStr q) (JStr t)))),
             map log_entry (enumerate_items 1 (fst (graph_stream E (JStr q) (JStr t))))))"
  by (cases "graph_stream E (JStr q) (JStr t)")
    (simp add: run_graph_eq stream_complete_def)

lemma transports_relay_items:
  assumes "stream = graph_stream E (JStr q) (JStr t)"
    and "thread_id = py_or v (JStr (uuid4 E))"
    and "ws_stream = graph_stream E qj thread_id"
  shows
    "(\<forall>answer steps. snd (run_graph E q t) = Inr (answer, steps) \<longrightarrow>
        steps = map log_entry (enumerate_items 1 (fst stream)))
     \<and> (stream_complete stream \<longrightarrow>
          (\<exists>answer. snd (run_graph E q t)
             = Inr (answer, map log_entry (enumerate_items 1 (fst stream)))))
     \<and> prefix (yields (fst (sse_graph_stream E q t c)))
         (map (sse E)
            (init_event (JStr t) # map step_frame (relayed_items (fst stream)) @ [done_event]))
     \<and> (stream_complete stream \<longrightarrow>
          yields (fst (sse_graph_stream E q t Exhaust))
            = map (sse E)
                (init_event (JStr t) # map step_frame (enumerate_items 1 (fst stream))
                   @ [done_event]))
     \<and> prefix (node_events (yields (fst (event_stream E q t c))))
         (map node_data (enumerate_items 1 (fst stream)))
     \<and> node_events (yields (fst (event_stream E q t Exhaust)))
         = map node_data (enumerate_items 1 (fst stream))
     \<and> (ws_receive_json W = Inr data \<and> py_getitem data ''query'' = Inr qj
          \<and> py_get data ''thread_id'' = Inr v \<longrightarrow>
            prefix (sends (fst (query_ws W E)))
              (init_event thread_id # map step_frame (relayed_items (fst ws_stream))
                 @ [done_event])
          \<and> (ws_accept W = None \<and> (\<forall>j. ws_send_json W j = None) \<and> stream_complete ws_stream \<longrightarrow>
               sends (fst (query_ws W E))
                 = init_event thread_id # map step_frame (enumerate_items 1 (fst ws_stream))
                     @ [done_event]))
     \<and> map fst (enumerate_items 1 chunks)
         = concat (map (\<lambda>(step, chunk). replicate (length chunk) step) (enumerate 1 chunks))
     \<and> map snd (enumerate_items 1 chunks) = concat chunks"
proof -
  have "\<forall>answer steps. snd (run_graph E q t) = Inr (answer, steps) \<longrightarrow>
          steps = map log_entry (enumerate_items 1 (fst stream))"
    unfolding assms(1) by (blast dest: run_graph_returns)
  moreover have "stream_complete stream \<longrightarrow>
          (\<exists>answer. snd (run_graph E q t)
             = Inr (answer, map log_entry (enumerate_items 1 (fst stream))))"
    unfolding assms(1) by (simp add: run_graph_complete)
  moreover have "prefix (yields (fst (sse_graph_stream E q t c)))
         (map (sse E)
            (init_event (JStr t) # map step_frame (relayed_items (fst stream)) @ [done_event]))"
    unfolding assms(1) by (rule sse_relays_in_order)
  moreover have "stream_complete stream \<longrightarrow>
          yields (fst (sse_graph_stream E q t Exhaust))
            = map (sse E)
                (init_event (JStr t) # map step_frame (enumerate_items 1 (fst stream))
                   @ [done_event])"
    unfolding assms(1) by (blast intro: sse_relays_all)
  moreover have "prefix (node_events (yields (fst (event_stream E q t c))))
         (map node_data (enumerate_items 1 (fst stream)))"
    unfolding assms(1) by (rule event_stream_relays_in_order)
  moreover have "node_events (yields (fst (event_stream E q t Exhaust)))
         = map node_data (enumerate_items 1 (fst stream))"
    unfolding assms(1) by (rule event_stream_relays_all)
  moreover have "ws_receive_json W = Inr data \<and> py_getitem data ''query'' = Inr qj
          \<and> py_get data ''thread_id'' = Inr v \<longrightarrow>
            prefix (sends (fst (query_ws W E)))
              (init_event thread_id # map step_frame (relayed_items (fst ws_stream))
                 @ [done_event])
          \<and> (ws_accept W = None \<and> (\<forall>j. ws_send_json W j = None) \<and> stream_complete ws_stream \<longrightarrow>
               sends (fst (query_ws W E))
                 = init_event thread_id # map step_frame (enumerate_items 1 (fst ws_stream))
                     @ [done_event])"
    unfolding assms(2,3)
    using query_ws_relays_in_order [of W data qj v E] query_ws_relays_all [of W data qj v E]
    by blast
  moreover have "map fst (enumerate_items 1 chunks)
         = concat (map (\<lambda>(step, chunk). replicate (length chunk) step) (enumerate 1 chunks))"
    by (rule step_numbers_from)
  moreover have "map snd (enumerate_items 1 chunks) = concat chunks"
    by (rule pairs_in_order)
  ultimately show ?thesis by blast
qed

lemma example_items:
  "enumerate_items (Suc 0) example_chunks =
     [(1, ''agent'', [AIMessage ''a1'']), (1, ''tools'', [ToolMessage ''r'' (Some ''web_search'')]),
      (2, ''final'', [HumanMessage ''h'', AIMessage ''bye''])]"
  by (simp add: enumerate_items_def example_chunks_def)

lemma example_stream_complete: "stream_complete (example_chunks, None)"
  by (simp add: stream_complete_def example_items has_message_def)

lemma str_nat_examples: "str_nat (Suc 0) = ''1''" "str_nat 2 = ''2''"
  by (simp_all add: str_nat.simps digit_char_def)

lemma log_entry_format:
  "log_entry =
     (\<lambda>(step, node, upd).
        ''Step '' @ str_nat step @ '' | Node: '' @ node @ ''\<newline>Response: ''
          @ msg_content (last upd))"
  by (auto simp: log_entry_def step_log_def fun_eq_iff)

lemma sse_format: "sse E = (\<lambda>j. ''data: '' @ json_dumps E j @ ''\<newline>\<newline>'')"
  by (simp add: sse_def fun_eq_iff)

lemma step_frame_format:
  "step_frame =
     (\<lambda>(step, node, upd).
        JObj [(''event'', JStr ''step''), (''step'', JInt (int step)), (''node'', JStr node),
              (''content'', JStr (msg_content (last upd)))])"
  by (auto simp: step_frame_def step_event_def fun_eq_iff)

lemma node_data_format:
  "node_data =
     (\<lambda>(step, node, upd).
        ''data: '' @ [CHR 0xF0, CHR 0x9F, CHR 0x94, CHR 0xB9] @ '' Node: '' @ node
          @ ''\<newline>\<newline>'')"
  by (auto simp: node_data_def node_line_def fun_eq_iff)

text \<open>
  Claim C1. Let the graph's stream yield the chunks \<open>fst stream\<close>. The pairs
  \<open>enumerate_items 1\<close> of these chunks are the \<open>(node, update)\<close> pairs of the chunks in
  the order of the stream (last line), each with the number of its chunk, counted from 1 and
  raised by 1 from a chunk to the next (the line before). A pair \<open>(step, node, update)\<close>
  has four renderings, each with the number, the name and the content of the last message
  it is made of: the \<open>entry\<close> of \<open>steps_log\<close>, the \<open>frame\<close> of a \<open>step\<close> event, the
  \<open>node_item\<close> of a \<open>node\<close> event, and \<open>sse_item\<close> wraps a frame as an SSE item. Then:
  \<^item> when \<open>run_graph\<close> returns, its \<open>steps_log\<close> holds the entry of the n-th pair at
    position n, for all pairs; it returns when the stream ends without an exception and
    every update has a message;
  \<^item> the items \<open>sse_graph_stream\<close> yields are an initial part of: the \<open>init\<close> event,
    the frame of each pair in order (up to the first update with no message), the
    \<open>done\<close> event; and all of it on a complete stream read to its end;
  \<^item> the data of the \<open>node\<close> events \<open>event_stream\<close> yields are an initial part of the
    node items of the pairs in order, and all of them when the response is read to its
    end;
  \<^item> the frames \<open>query_ws\<close> sends, once it has received a query, are an initial part
    of: the \<open>init\<close> frame, the frame of each pair in order, the \<open>done\<close> frame; and all of
    it when no call on the websocket fails and the stream is complete.
\<close>

theorem transports_relay_in_stream_order:
  assumes "stream = graph_stream E (JStr q) (JStr t)"
    and "thread_id = py_or v (JStr (uuid4 E))"
    and "ws_stream = graph_stream E qj thread_id"
    and "entry =
           (\<lambda>(step, node, upd).
              ''Step '' @ str_nat step @ '' | Node: '' @ node @ ''\<newline>Response: ''
                @ msg_content (last upd))"
    and "frame =
           (\<lambda>(step, node, upd).
              JObj [(''event'', JStr ''step''), (''step'', JInt (int step)), (''node'', JStr node),
                    (''content'', JStr (msg_content (last upd)))])"
    and "node_item =
           (\<lambda>(step, node, upd).
              ''data: '' @ [CHR 0xF0, CHR 0x9F, CHR 0x94, CHR 0xB9] @ '' Node: '' @ node
                @ ''\<newline>\<newline>'')"
    and "sse_item = (\<lambda>j. ''data: '' @ json_dumps E j @ ''\<newline>\<newline>'')"
  shows
    "(\<forall>answer steps. snd (run_graph E q t) = Inr (answer, steps) \<longrightarrow>
        steps = map entry (enumerate_items 1 (fst stream)))
     \<and> (stream_complete stream \<longrightarrow>
          (\<exists>answer. snd (run_graph E q t)
             = Inr (answer, map entry (enumerate_items 1 (fst stream)))))
     \<and> prefix (yields (fst (sse_graph_stream E q t c)))
         (map sse_item
            (JObj [(''event'', JStr ''init''), (''thread_id'', JStr t)]
               # map frame (relayed_items (fst stream))
               @ [JObj [(''event'', JStr ''done'')]]))
     \<and> (stream_complete stream \<longrightarrow>
          yields (fst (sse_graph_stream E q t Exhaust))
            = map sse_item
                (JObj [(''event'', JStr ''init''), (''thread_id'', JStr t)]
                   # map frame (enumerate_items 1 (fst stream))
                   @ [JObj [(''event'', JStr ''done'')]]))
     \<and> prefix (node_events (yields (fst (event_stream E q t c))))
         (map node_item (enumerate_items 1 (fst stream)))
     \<and> node_events (yields (fst (event_stream E q t Exhaust)))
         = map node_item (enumerate_items 1 (fst stream))
     \<and> (ws_receive_json W = Inr data \<and> py_getitem data ''query'' = Inr qj
          \<and> py_get data ''thread_id'' = Inr v \<longrightarrow>
            prefix (sends (fst (query_ws W E)))
              (JObj [(''event'', JStr ''init''), (''thread_id'', thread_id)]
                 # map frame (relayed_items (fst ws_stream))
                 @ [JObj [(''event'', JStr ''done'')]])
          \<and> (ws_accept W = None \<and> (\<forall>j. ws_send_json W j = None) \<and> stream_complete ws_stream \<longrightarrow>
               sends (fst (query_ws W E))
                 = JObj [(''event'', JStr ''init''), (''thread_id'', thread_id)]
                     # map frame (enumerate_items 1 (fst ws_stream))
                     @ [JObj [(''event'', JStr ''done'')]]))
     \<and> map fst (enumerate_items 1 chunks)
         = concat (map (\<lambda>(step, chunk). replicate (length chunk) step) (enumerate 1 chunks))
     \<and> map snd (enumerate_items 1 chunks) = concat chunks"
  using transports_relay_items [OF assms(1-3), of c W data chunks]
  unfolding assms(4-7) log_entry_format step_frame_format node_data_format sse_format
    init_event_def done_event_def
  .

theorem transports_relay_in_stream_order_witness:
  "stream_complete (example_chunks, None)
   \<and> (\<exists>answer. snd (run_graph (example_env (example_chunks, None) []) ''hi'' ''t1'')
         = Inr (answer,
                [''Step 1 | Node: agent\<newline>Response: a1'',
                 ''Step 1 | Node: tools\<newline>Response: r'',
                 ''Step 2 | Node: final\<newline>Response: bye'']))
   \<and> yields (fst (sse_graph_stream (example_env (example_chunks, None) []) ''hi'' ''t1'' Exhaust))
       = map (\<lambda>j. ''data: '' @ example_dumps j @ ''\<newline>\<newline>'')
           [JObj [(''event'', JStr ''init''), (''thread_id'', JStr ''t1'')],
            JObj [(''event'', JStr ''step''), (''step'', JInt 1), (''node'', JStr ''agent''),
                  (''content'', JStr ''a1'')],
            JObj [(''event'', JStr ''step''), (''step'', JInt 1), (''node'', JStr ''tools''),
                  (''content'', JStr ''r'')],
            JObj [(''event'', JStr ''step''), (''step'', JInt 2), (''node'', JStr ''final''),
                  (''content'', JStr ''bye'')],
            JObj [(''event'', JStr ''done'')]]
   \<and> node_events (yields (fst (event_stream (example_env (example_chunks, None) []) ''hi'' ''t1'' Exhaust)))
       = [''data: '' @ [CHR 0xF0, CHR 0x9F, CHR 0x94, CHR 0xB9] @ '' Node: agent\<newline>\<newline>'',
          ''data: '' @ [CHR 0xF0, CHR 0x9F, CHR 0x94, CHR 0xB9] @ '' Node: tools\<newline>\<newline>'',
          ''data: '' @ [CHR 0xF0, CHR 0x9F, CHR 0x94, CHR 0xB9] @ '' Node: final\<newline>\<newline>'']
   \<and> sends (fst (query_ws
                    (example_websocket (JObj [(''query'', JStr ''hi''), (''thread_id'', JStr ''t1'')]))
                    (example_env (example_chunks, None) [])))
       = [JObj [(''event'', JStr ''init''), (''thread_id'', JStr ''t1'')],
          JObj [(''event'', JStr ''step''), (''step'', JInt 1), (''node'', JStr ''agent''),
                (''content'', JStr ''a1'')],
          JObj [(''event'', JStr ''step''), (''step'', JInt 1), (''node'', JStr ''tools''),
                (''content'', JStr ''r'')],
          JObj [(''event'', JStr ''step''), (''step'', JInt 2), (''node'', JStr ''final''),
                (''content'', JStr ''bye'')],
          JObj [(''event'', JStr ''done'')]]"
proof -
  let ?E = "example_env (example_chunks, None) []"
  let ?data = "JObj [(''query'', JStr ''hi''), (''thread_id'', JStr ''t1'')]"
  have stream: "(example_chunks, None) = graph_stream ?E (JStr ''hi'') (JStr ''t1'')"
    by (simp add: example_env_def)
  have thread: "JStr ''t1'' = py_or (JStr ''t1'') (JStr (uuid4 ?E))"
    by (simp add: py_or_def)
  have ws_stream: "(example_chunks, None) = graph_stream ?E (JStr ''hi'') (JStr ''t1'')"
    by (simp add: example_env_def)
  have dumps: "json_dumps ?E = example_dumps"
    by (simp add: example_env_def)
  have received: "ws_receive_json (example_websocket ?data) = Inr ?data
      \<and> py_getitem ?data ''query'' = Inr (JStr ''hi'')
      \<and> py_get ?data ''thread_id'' = Inr (JStr ''t1'')
      \<and> ws_accept (example_websocket ?data) = None
      \<and> (\<forall>j. ws_send_json (example_websocket ?data) j = None)"
    by (simp add: example_websocket_def)
  note T = transports_relay_in_stream_order
    [OF stream thread ws_stream refl refl refl refl, where c = Exhaust
       and W = "example_websocket ?data" and data = ?data]
  from T received example_stream_complete show ?thesis
    unfolding dumps
    by (simp add: example_items str_nat_examples del: example_dumps.simps)
qed

section \<open>Claim C2: the answer and the steps of run_graph\<close>

lemma query_eq:
  "query E req =
     (fst (run_graph E (rq_query req) (or_uuid4 E (rq_thread_id req))),
      case snd (run_graph E (rq_query req) (or_uuid4 E (rq_thread_id req))) of
        Inl e \<Rightarrow> Inl e
      | Inr (answer, steps) \<Rightarrow>
          Inr \<lparr>qa_answer = answer, qa_steps = steps,
               qa_thread_id = or_uuid4 E (rq_thread_id req)\<rparr>)"
  by (simp add: query_def Let_def split: prod.splits sum.splits)

text \<open>
  Claim C2, amended. When the graph's stream ends without an exception, has yielded at
  least one \<open>(node, update)\<close> pair, and every update holds at least one message,
  \<open>run_graph\<close> returns: its final answer is the content of the last message of the last
  pair, its list of steps holds one entry for each pair, in order, of the form
  \<open>Step {step} | Node: {node}\nResponse: {content}\<close>; and \<open>/query\<close> returns this answer
  and this list unchanged, with the thread id it ran the graph with.
\<close>

theorem run_graph_final_answer_and_steps:
  assumes "graph_stream E (JStr q) (JStr t) = (chunks, None)"
    and "enumerate_items 1 chunks \<noteq> []"
    and "list_all has_message (enumerate_items 1 chunks)"
    and "answer = msg_content (last (snd (snd (last (enumerate_items 1 chunks)))))"
    and "steps =
           map (\<lambda>(step, node, upd).
                  ''Step '' @ str_nat step @ '' | Node: '' @ node @ ''\<newline>Response: ''
                    @ msg_content (last upd))
               (enumerate_items 1 chunks)"
  shows "snd (run_graph E q t) = Inr (answer, steps)
     \<and> (\<forall>req. rq_query req = q \<and> or_uuid4 E (rq_thread_id req) = t \<longrightarrow>
          snd (query E req) = Inr \<lparr>qa_answer = answer, qa_steps = steps, qa_thread_id = t\<rparr>)"
proof -
  have "stream_complete (graph_stream E (JStr q) (JStr t))"
    using assms(1,3) by (simp add: stream_complete_def)
  then have "snd (run_graph E q t) =
      Inr (answer_after [] (enumerate_items 1 chunks), map log_entry (enumerate_items 1 chunks))"
    using assms(1) by (simp add: run_graph_complete)
  moreover have "answer_after [] (enumerate_items 1 chunks) = answer"
    using assms(2,4) by (simp add: answer_after_def item_content_def split: prod.splits)
  moreover have "map log_entry (enumerate_items 1 chunks) = steps"
    using assms(5) by (simp add: log_entry_format)
  ultimately have run: "snd (run_graph E q t) = Inr (answer, steps)"
    by simp
  then show ?thesis
    by (auto simp: query_eq)
qed

theorem run_graph_final_answer_and_steps_witness:
  "enumerate_items 1 example_chunks \<noteq> []
   \<and> list_all has_message (enumerate_items 1 example_chunks)
   \<and> snd (run_graph (example_env (example_chunks, None) []) ''hi'' ''t1'')
       = Inr (''bye'',
              [''Step 1 | Node: agent\<newline>Response: a1'',
               ''Step 1 | Node: tools\<newline>Response: r'',
               ''Step 2 | Node: final\<newline>Response: bye''])
   \<and> snd (query (example_env (example_chunks, None) []) \<lparr>rq_query = ''hi'', rq_thread_id = Some ''t1''\<rparr>)
       = Inr \<lparr>qa_answer = ''bye'',
              qa_steps =
                [''Step 1 | Node: agent\<newline>Response: a1'',
                 ''Step 1 | Node: tools\<newline>Response: r'',
                 ''Step 2 | Node: final\<newline>Response: bye''],
              qa_thread_id = ''t1''\<rparr>"
proof -
  let ?E = "example_env (example_chunks, None) []"
  have stream: "graph_stream ?E (JStr ''hi'') (JStr ''t1'') = (example_chunks, None)"
    by (simp add: example_env_def)
  have items: "enumerate_items 1 example_chunks \<noteq> []"
    and messages: "list_all has_message (enumerate_items 1 example_chunks)"
    by (simp_all add: example_items has_message_def)
  have request: "rq_query \<lparr>rq_query = ''hi'', rq_thread_id = Some ''t1''\<rparr> = ''hi''
      \<and> or_uuid4 ?E (rq_thread_id \<lparr>rq_query = ''hi'', rq_thread_id = Some ''t1''\<rparr>) = ''t1''"
    by (simp add: or_uuid4_def)
  from run_graph_final_answer_and_steps [OF stream items messages refl refl] request items messages
  show ?thesis
    by (simp add: example_items str_nat_examples)
qed

text \<open>
  The claim as first stated asks this of every non-empty sequence of updates. On a stream
  of one chunk whose only update has an empty list of messages, \<open>update["messages"][-1]\<close>
  raises \<open>IndexError\<close>: \<open>run_graph\<close> and \<open>/query\<close> return nothing.
\<close>

theorem run_graph_empty_update_counterexample:
  "enumerate_items 1 [[(''agent'', [])]] \<noteq> []
   \<and> run_graph (example_env ([[(''agent'', [])]], None) []) ''hi'' ''t1''
       = ([GraphStream (JStr ''hi'') (JStr ''t1'')], Inl IndexError)
   \<and> query (example_env ([[(''agent'', [])]], None) []) \<lparr>rq_query = ''hi'', rq_thread_id = Some ''t1''\<rparr>
       = ([GraphStream (JStr ''hi'') (JStr ''t1'')], Inl IndexError)"
  by (simp add: enumerate_items_def query_def run_graph_def example_env_def last_message_def
      or_uuid4_def)

section \<open>Claim C5: the thread id first, done last\<close>








section \<open>Claim C6: the websocket handler closes the websocket\<close>

lemma query_ws_accepted:
  "ws_accept W = None \<Longrightarrow>
     query_ws W E =
       (WsAccept # fst (query_ws_try W E) @ [WsClose],
        case ws_close W of
          Some e \<Rightarrow> Some e
        | None \<Rightarrow>
            (case snd (query_ws_try W E) of
               None \<Rightarrow> None
             | Some e \<Rightarrow> if is_Exception e then None else Some e))"
  by (cases "query_ws_try W E") (simp add: query_ws_def Let_def split: option.splits)

text \<open>
  Claim C6, amended. In every run of \<open>query_ws\<close> in which \<open>accept\<close> returns, the handler
  calls \<open>close\<close> exactly once, as the last thing it does, whatever \<open>receive_json\<close>, the
  graph's stream or a \<open>send_json\<close> raises. When moreover \<open>close\<close> returns and every
  exception that \<open>receive_json\<close>, the graph's stream or a \<open>send_json\<close> raises is of a
  class below \<open>Exception\<close>, no exception reaches the caller.
\<close>

theorem query_ws_closes_and_swallows:
  "(ws_accept W = None \<longrightarrow>
      (\<exists>es. fst (query_ws W E) = WsAccept # es @ [WsClose] \<and> WsClose \<notin> set es))
   \<and> (ws_accept W = None \<and> ws_close W = None
        \<and> (\<forall>e. ws_receive_json W = Inl e \<longrightarrow> is_Exception e)
        \<and> (\<forall>j e. ws_send_json W j = Some e \<longrightarrow> is_Exception e)
        \<and> (\<forall>q t e. snd (graph_stream E q t) = Some e \<longrightarrow> is_Exception e)
      \<longrightarrow> snd (query_ws W E) = None)"
proof (intro conjI impI)
  assume "ws_accept W = None"
  then have "fst (query_ws W E) = WsAccept # fst (query_ws_try W E) @ [WsClose]"
    by (simp add: query_ws_accepted)
  with WsClose_notin_try [of W E]
  show "\<exists>es. fst (query_ws W E) = WsAccept # es @ [WsClose] \<and> WsClose \<notin> set es"
    by blast
next
  assume a: "ws_accept W = None \<and> ws_close W = None
        \<and> (\<forall>e. ws_receive_json W = Inl e \<longrightarrow> is_Exception e)
        \<and> (\<forall>j e. ws_send_json W j = Some e \<longrightarrow> is_Exception e)
        \<and> (\<forall>q t e. snd (graph_stream E q t) = Some e \<longrightarrow> is_Exception e)"
  have "is_Exception e" if "snd (query_ws_try W E) = Some e" for e
    using query_ws_try_raised [OF that] a by blast
  with a show "snd (query_ws W E) = None"
    by (simp add: query_ws_accepted split: option.splits)
qed

theorem query_ws_closes_and_swallows_witness:
  "query_ws
     (example_failing_websocket (JObj [(''query'', JStr ''hi''), (''thread_id'', JStr ''t1'')]))
     (example_env (example_chunks, None) [])
     = ([WsAccept, WsReceiveJson, WsSendJson (init_event (JStr ''t1'')),
         GraphStream (JStr ''hi'') (JStr ''t1''),
         WsSendJson (step_event 1 ''agent'' ''a1''),
         WsSendJson (step_event 1 ''tools'' ''r''),
         WsClose],
        None)"
proof -
  let ?W = "example_failing_websocket (JObj [(''query'', JStr ''hi''), (''thread_id'', JStr ''t1'')])"
  let ?E = "example_env (example_chunks, None) []"
  have h: "ws_accept ?W = None \<and> ws_close ?W = None
        \<and> (\<forall>e. ws_receive_json ?W = Inl e \<longrightarrow> is_Exception e)
        \<and> (\<forall>j e. ws_send_json ?W j = Some e \<longrightarrow> is_Exception e)
        \<and> (\<forall>q t e. snd (graph_stream ?E q t) = Some e \<longrightarrow> is_Exception e)"
    by (simp add: example_failing_websocket_def example_env_def)
  have effects: "fst (query_ws ?W ?E) =
      [WsAccept, WsReceiveJson, WsSendJson (init_event (JStr ''t1'')),
       GraphStream (JStr ''hi'') (JStr ''t1''),
       WsSendJson (step_event 1 ''agent'' ''a1''),
       WsSendJson (step_event 1 ''tools'' ''r''),
       WsClose]"
    by (simp add: query_ws_def query_ws_try_def query_ws_stream_def
        example_failing_websocket_def example_env_def example_chunks_def last_message_def
        py_or_def Let_def)
  from query_ws_closes_and_swallows [of ?W ?E] h have "snd (query_ws ?W ?E) = None"
    by blast
  with effects show ?thesis
    by (simp add: prod_eq_iff)
qed

text \<open>
  The claim as first stated asks this of every run. Three runs in which an exception
  reaches the caller: \<open>accept\<close>, which stands before the \<open>try\<close>, raises (and \<open>close\<close> is
  not called); \<open>receive_json\<close> raises \<open>CancelledError\<close>, which \<open>except Exception\<close> does
  not catch; \<open>close\<close>, called in the \<open>finally\<close> clause, raises.
\<close>

theorem query_ws_propagates_counterexample:
  "query_ws
     \<lparr>ws_accept = Some (OtherException ''RuntimeError''), ws_receive_json = Inr JNull,
      ws_send_json = (\<lambda>k. None), ws_close = None\<rparr>
     (example_env (example_chunks, None) [])
     = ([WsAccept], Some (OtherException ''RuntimeError''))
   \<and> query_ws
     \<lparr>ws_accept = None, ws_receive_json = Inl (NonException ''CancelledError''),
      ws_send_json = (\<lambda>k. None), ws_close = None\<rparr>
     (example_env (example_chunks, None) [])
     = ([WsAccept, WsReceiveJson, WsClose], Some (NonException ''CancelledError''))
   \<and> query_ws
     \<lparr>ws_accept = None, ws_receive_json = Inl (OtherException ''WebSocketDisconnect''),
      ws_send_json = (\<lambda>k. None), ws_close = Some (OtherException ''RuntimeError'')\<rparr>
     (example_env (example_chunks, None) [])
     = ([WsAccept, WsReceiveJson, WsClose], Some (OtherException ''RuntimeError''))"
  by (simp add: query_ws_def query_ws_try_def)

section \<open>Claim C7: where /suggest takes the final answer from\<close>

lemma get_last_ai_answer_none:
  "\<not> list_ex is_AIMessage messages \<Longrightarrow> get_last_ai_answer messages = None"
  by (simp add: get_last_ai_answer_def find_rev_none)

lemma get_last_ai_answer_last:
  "\<not> list_ex is_AIMessage after \<Longrightarrow>
     get_last_ai_answer (before @ AIMessage c # after) = Some c"
  using find_rev_last [of is_AIMessage after "AIMessage c" before]
  by (simp add: get_last_ai_answer_def)

lemma fst_suggest_generate:
  "fst (suggest_generate E request es fa) = es @ [ModelInvoke (SUGGESTION_PROMPT_format fa)]"
  by (simp add: suggest_generate_def Let_def split: sum.splits)

text \<open>With neither a final answer nor a thread id, nothing is called; with a final answer,
  the model is called with the prompt made of it, and the graph is not.\<close>

lemma suggest_without_answer_and_thread:
  "\<not> truthy_opt (sq_final_answer request) \<Longrightarrow> \<not> truthy_opt (sq_thread_id request) \<Longrightarrow>
     suggest E request = ([], Inr \<lparr>sa_suggestions = [], sa_thread_id = None\<rparr>)"
  by (simp add: suggest_def)

lemma suggest_with_answer:
  "sq_final_answer request = Some fa \<Longrightarrow> fa \<noteq> [] \<Longrightarrow>
     fst (suggest E request) = [ModelInvoke (SUGGESTION_PROMPT_format fa)]"
  by (simp add: suggest_def fst_suggest_generate)

text \<open>With a thread id and no final answer, what follows \<open>graph.get_state\<close> depends on
  what the state is: on a mapping with messages the code reads the last \<open>AIMessage\<close>; on
  a \<open>StateSnapshot\<close> the subscript raises.\<close>

lemma suggest_on_mapping:
  assumes "\<not> truthy_opt (sq_final_answer request)"
    and "sq_thread_id request = Some t" and "t \<noteq> []"
    and "graph_get_state E (JStr t) = Inr (StateDict (Some messages))"
  shows "(\<not> list_ex is_AIMessage messages \<longrightarrow>
            suggest E request
              = ([GraphGetState (JStr t)], Inr \<lparr>sa_suggestions = [], sa_thread_id = Some t\<rparr>))
     \<and> (\<forall>before c after.
           messages = before @ AIMessage c # after \<and> \<not> list_ex is_AIMessage after \<and> c \<noteq> [] \<longrightarrow>
             fst (suggest E request)
               = [GraphGetState (JStr t), ModelInvoke (SUGGESTION_PROMPT_format c)])"
  using assms
  by (auto simp: suggest_def get_last_ai_answer_none get_last_ai_answer_last
      fst_suggest_generate)

lemma suggest_on_StateSnapshot:
  assumes "\<not> truthy_opt (sq_final_answer request)"
    and "sq_thread_id request = Some t" and "t \<noteq> []"
    and "graph_get_state E (JStr t) = Inr (StateSnapshot values)"
  shows "suggest E request = ([GraphGetState (JStr t)], Inl TypeError)"
  using assms by (simp add: suggest_def)

text \<open>
  Claim C7, at the request where the code leaves it. The request has no final answer and
  the thread id \<open>t1\<close>; \<open>graph.get_state\<close> returns the \<open>StateSnapshot\<close> of a thread whose
  messages end with an \<open>AIMessage\<close> of content \<open>CCC is a club.\<close> The claim has \<open>/suggest\<close>
  take that content as the final answer and call the model with it. The code reads
  \<open>state["messages"]\<close>, which raises \<open>TypeError\<close> on the named tuple: the request fails
  after the one call of the graph, and the model is not called.
\<close>

theorem suggest_StateSnapshot_raises:
  "get_last_ai_answer [HumanMessage ''what is CCC?'', AIMessage ''CCC is a club.'']
     = Some ''CCC is a club.''
   \<and> graph_get_state
       (example_env ([], None) [HumanMessage ''what is CCC?'', AIMessage ''CCC is a club.''])
       (JStr ''t1'')
     = Inr (StateSnapshot [HumanMessage ''what is CCC?'', AIMessage ''CCC is a club.''])
   \<and> suggest (example_env ([], None) [HumanMessage ''what is CCC?'', AIMessage ''CCC is a club.''])
       \<lparr>sq_final_answer = None, sq_thread_id = Some ''t1''\<rparr>
     = ([GraphGetState (JStr ''t1'')], Inl TypeError)"
  by (simp add: suggest_def example_env_def get_last_ai_answer_def)

section \<open>Claim C8: one thread id for the graph and for the client\<close>






















end
